theory Spec2Isabelle
  imports Main "HOL-Library.Char_ord" "HOL-Library.List_Lexorder" "HOL-Library.Multiset"
begin

section \<open>Strings as Go has them\<close>

text \<open>
  A Go string is a sequence of bytes; \<^typ>\<open>string\<close> is a list of 8-bit characters.
  The functions of this section embed the few functions of Go's \<^verbatim>\<open>strings\<close> package
  that the program calls, at byte granularity.
\<close>

abbreviation LF :: char where "LF \<equiv> CHR 0x0A"
abbreviation CR :: char where "CR \<equiv> CHR 0x0D"
abbreviation TAB :: char where "TAB \<equiv> CHR 0x09"
abbreviation SPC :: char where "SPC \<equiv> CHR 0x20"
abbreviation DQ :: char where "DQ \<equiv> CHR 0x22"

text \<open>\<^verbatim>\<open>strings.HasPrefix(s, p)\<close>.\<close>

definition hasPrefix :: "string \<Rightarrow> string \<Rightarrow> bool" where
  "hasPrefix s p = (take (length p) s = p)"

text \<open>
  \<^verbatim>\<open>strings.Index\<close> together with the cut around the hit: the text before the leftmost
  occurrence of \<open>sep\<close> and the text after it.
\<close>

fun strIndex :: "string \<Rightarrow> string \<Rightarrow> (string \<times> string) option" where
  "strIndex sep [] = (if sep = [] then Some ([], []) else None)"
| "strIndex sep (c # cs) =
     (if hasPrefix (c # cs) sep then Some ([], drop (length sep) (c # cs))
      else (case strIndex sep cs of
              None \<Rightarrow> None
            | Some (p, r) \<Rightarrow> Some (c # p, r)))"

lemma strIndex_shorter:
  "strIndex sep s = Some (p, r) \<Longrightarrow> sep \<noteq> [] \<Longrightarrow> length r < length s"
proof (induction s arbitrary: p r)
  case Nil
  then show ?case by simp
next
  case (Cons c cs)
  show ?case
  proof (cases "hasPrefix (c # cs) sep")
    case True
    with Cons.prems show ?thesis by auto
  next
    case False
    with Cons.prems obtain p' where "strIndex sep cs = Some (p', r)"
      by (auto split: option.splits)
    with Cons.IH Cons.prems(2) show ?thesis by fastforce
  qed
qed

text \<open>
  \<^verbatim>\<open>strings.Split(s, sep)\<close>: the pieces between the non-overlapping occurrences of
  \<open>sep\<close>, found left to right; a text without \<open>sep\<close> is its own single piece. With
  an empty separator Go explodes the text (into UTF-8 sequences; into bytes here); the
  program never passes one.
\<close>

function strSplit :: "string \<Rightarrow> string \<Rightarrow> string list" where
  "strSplit s sep =
     (if sep = [] then map (\<lambda>c. [c]) s
      else (case strIndex sep s of
              None \<Rightarrow> [s]
            | Some (p, r) \<Rightarrow> p # strSplit r sep))"
  by pat_completeness auto
termination
  by (relation "measure (\<lambda>(s, sep). length s)") (auto dest: strIndex_shorter)

declare strSplit.simps [simp del]

text \<open>\<^verbatim>\<open>strings.Contains(s, sub)\<close>.\<close>

definition strContains :: "string \<Rightarrow> string \<Rightarrow> bool" where
  "strContains s sub = (strIndex sub s \<noteq> None)"

text \<open>
  \<^verbatim>\<open>strings.Replace(s, old, new, -1)\<close>: every non-overlapping occurrence of
  \<open>old\<close>, found left to right, becomes \<open>new\<close>. (For an empty \<open>old\<close> Go inserts
  \<open>new\<close> around every UTF-8 sequence; the program never passes one, and the model
  does it around every byte.)
\<close>

function strReplaceAll :: "string \<Rightarrow> string \<Rightarrow> string \<Rightarrow> string" where
  "strReplaceAll s old new =
     (if old = [] then new @ concat (map (\<lambda>c. c # new) s)
      else (case strIndex old s of
              None \<Rightarrow> s
            | Some (p, r) \<Rightarrow> p @ new @ strReplaceAll r old new))"
  by pat_completeness auto
termination
  by (relation "measure (\<lambda>(s, old, new). length s)") (auto dest: strIndex_shorter)

declare strReplaceAll.simps [simp del]

text \<open>\<^verbatim>\<open>strings.Join(l, sep)\<close>.\<close>

fun joinStr :: "string list \<Rightarrow> string \<Rightarrow> string" where
  "joinStr [] sep = []"
| "joinStr [x] sep = x"
| "joinStr (x # y # ys) sep = x @ sep @ joinStr (y # ys) sep"

text \<open>
  \<^verbatim>\<open>strings.TrimRight\<close>, \<^verbatim>\<open>strings.TrimLeft\<close> and \<^verbatim>\<open>strings.Trim\<close> with a cutset of
  ASCII characters: bytes of the cutset are removed from the end, the start, or both.
\<close>

definition strTrimRight :: "string \<Rightarrow> string \<Rightarrow> string" where
  "strTrimRight s cutset = rev (dropWhile (\<lambda>c. c \<in> set cutset) (rev s))"

definition strTrimLeft :: "string \<Rightarrow> string \<Rightarrow> string" where
  "strTrimLeft s cutset = dropWhile (\<lambda>c. c \<in> set cutset) s"

definition strTrim :: "string \<Rightarrow> string \<Rightarrow> string" where
  "strTrim s cutset = strTrimRight (strTrimLeft s cutset) cutset"

text \<open>
  \<^verbatim>\<open>strings.ToUpper\<close>. Go takes a fast path for a text of ASCII bytes only, mapping
  \<open>a\<close>..\<open>z\<close> to \<open>A\<close>..\<open>Z\<close>; any other text goes through the Unicode tables of the
  Go library, which are a parameter \<open>uc\<close> here.
\<close>

definition isASCII :: "char \<Rightarrow> bool" where
  "isASCII c = (of_char c < (128 :: nat))"

definition asciiUpper :: "char \<Rightarrow> char" where
  "asciiUpper c =
     (if (97 :: nat) \<le> of_char c \<and> of_char c \<le> (122 :: nat)
      then char_of (of_char c - (32 :: nat)) else c)"

definition strToUpper :: "(string \<Rightarrow> string) \<Rightarrow> string \<Rightarrow> string" where
  "strToUpper uc s = (if list_all isASCII s then map asciiUpper s else uc s)"

section \<open>White space and lines\<close>

text \<open>\<^verbatim>\<open>runtime.GOOS\<close>, as far as \<^verbatim>\<open>newLine\<close> looks at it.\<close>

datatype os = Windows | Other

definition newLine :: "os \<Rightarrow> string" where
  "newLine os = (case os of Windows \<Rightarrow> [CR, LF] | Other \<Rightarrow> [LF])"

definition dblSpace :: "os \<Rightarrow> string" where
  "dblSpace os = newLine os @ newLine os"

text \<open>The cutset \<^verbatim>\<open>"\n\r\t "\<close> of the trimming functions.\<close>

definition whitespace :: string where
  "whitespace = [LF, CR, TAB, SPC]"

definition trimString :: "string \<Rightarrow> string" where
  "trimString s = strTrim s whitespace"

definition trimLine :: "string \<Rightarrow> string" where
  "trimLine s = strTrimRight s whitespace"

definition appendLine :: "string list \<Rightarrow> string \<Rightarrow> string list" where
  "appendLine s l = s @ [trimLine l]"

definition splitLines :: "string \<Rightarrow> string list" where
  "splitLines s = strSplit (strReplaceAll s [CR, LF] [LF]) [LF]"

section \<open>The regular expressions of the program\<close>

text \<open>
  A compiled pattern is modelled by its matcher at a position: given the text from that
  position on, the text left after the match that Go's leftmost-first engine finds there,
  if there is one. Every pattern of the program is literal text around one starred or
  plussed class \<^verbatim>\<open>[\n\r\t ]\<close>, and the literal text never starts with a character of
  the class, so the greedy run of the class is the only candidate at a position. No
  pattern matches the empty text.
\<close>

definition isWs :: "char \<Rightarrow> bool" where
  "isWs c = (c \<in> set whitespace)"

text \<open>\<^verbatim>\<open>[\n\r\t ]*ALTER \<close>\<close>

definition reAlter :: "string \<Rightarrow> string option" where
  "reAlter s =
     (let r = dropWhile isWs s
      in if hasPrefix r ''ALTER '' then Some (drop 6 r) else None)"

text \<open>\<^verbatim>\<open>[\n\r\t ][Oo][Nn][\n\r\t ]+\<close>\<close>

definition reOn :: "string \<Rightarrow> string option" where
  "reOn s =
     (case s of
        w # x # y # r \<Rightarrow>
          if isWs w \<and> (x = CHR ''O'' \<or> x = CHR ''o'') \<and> (y = CHR ''N'' \<or> y = CHR ''n'')
             \<and> r \<noteq> [] \<and> isWs (hd r)
          then Some (dropWhile isWs r) else None
      | _ \<Rightarrow> None)"

text \<open>\<^verbatim>\<open>[\n\r\t ]+\<close>\<close>

definition reWs :: "string \<Rightarrow> string option" where
  "reWs s = (if s \<noteq> [] \<and> isWs (hd s) then Some (dropWhile isWs s) else None)"

text \<open>\<^verbatim>\<open>--\<close>\<close>

definition reDashes :: "string \<Rightarrow> string option" where
  "reDashes s = (if hasPrefix s ''--'' then Some (drop 2 s) else None)"

text \<open>\<^verbatim>\<open>[\n\r\t ]+/\n\<close>\<close>

definition reSlash :: "string \<Rightarrow> string option" where
  "reSlash s =
     (let r = dropWhile isWs s
      in if s \<noteq> [] \<and> isWs (hd s) \<and> hasPrefix r [CHR ''/'', LF] then Some (drop 2 r)
         else None)"

text \<open>
  The leftmost match of a pattern in a text: the text before the match and the text after
  it.
\<close>

fun reFind :: "(string \<Rightarrow> string option) \<Rightarrow> string \<Rightarrow> (string \<times> string) option" where
  "reFind m [] = (case m [] of None \<Rightarrow> None | Some r \<Rightarrow> Some ([], r))"
| "reFind m (c # cs) =
     (case m (c # cs) of
        Some r \<Rightarrow> Some ([], r)
      | None \<Rightarrow> (case reFind m cs of
                  None \<Rightarrow> None
                | Some (p, r) \<Rightarrow> Some (c # p, r)))"

text \<open>
  \<^verbatim>\<open>FindString(s) != ""\<close> for a pattern that matches no empty text: there is a match.
\<close>

definition reMatches :: "(string \<Rightarrow> string option) \<Rightarrow> string \<Rightarrow> bool" where
  "reMatches m s = (reFind m s \<noteq> None)"

text \<open>
  \<^verbatim>\<open>Split(s, 2)\<close>: the text before the leftmost match and the whole text after it; a
  text without a match is the only piece.
\<close>

definition reSplit2 :: "(string \<Rightarrow> string option) \<Rightarrow> string \<Rightarrow> string list" where
  "reSplit2 m s = (case reFind m s of None \<Rightarrow> [s] | Some (p, r) \<Rightarrow> [p, r])"

lemma reFind_shorter:
  assumes "reFind m s = Some (p, r)" and "\<And>t r'. m t = Some r' \<Longrightarrow> length r' < length t"
  shows "length r < length s"
  using assms(1)
proof (induction s arbitrary: p)
  case Nil
  then show ?case using assms(2) [of "[]"] by (auto split: option.splits)
next
  case (Cons c cs)
  show ?case
  proof (cases "m (c # cs)")
    case (Some r')
    with Cons.prems assms(2) [of "c # cs" r'] show ?thesis by simp
  next
    case None
    with Cons.prems obtain p' where "reFind m cs = Some (p', r)"
      by (auto split: option.splits)
    with Cons.IH show ?thesis by fastforce
  qed
qed

lemma length_dropWhile_hd: "s \<noteq> [] \<Longrightarrow> P (hd s) \<Longrightarrow> length (dropWhile P s) < length s"
  by (cases s) (auto simp: le_imp_less_Suc length_dropWhile_le)

lemma reAlter_shorter: "reAlter t = Some r \<Longrightarrow> length r < length t"
proof -
  assume a: "reAlter t = Some r"
  then have h: "hasPrefix (dropWhile isWs t) ''ALTER ''" and r: "r = drop 6 (dropWhile isWs t)"
    by (auto simp: reAlter_def Let_def split: if_splits)
  from h have "dropWhile isWs t \<noteq> []"
    by (cases "dropWhile isWs t") (simp_all add: hasPrefix_def)
  with r have "length r < length (dropWhile isWs t)" by simp
  also have "\<dots> \<le> length t" by (rule length_dropWhile_le)
  finally show ?thesis .
qed

lemma reSlash_shorter: "reSlash t = Some r \<Longrightarrow> length r < length t"
proof -
  assume a: "reSlash t = Some r"
  then have r: "r = drop 2 (dropWhile isWs t)"
    by (auto simp: reSlash_def Let_def split: if_splits)
  then have "length r \<le> length (dropWhile isWs t)" by simp
  also from a have "\<dots> < length t"
    by (auto simp: reSlash_def Let_def length_dropWhile_hd split: if_splits)
  finally show ?thesis .
qed

text \<open>
  \<^verbatim>\<open>Split(s, -1)\<close> with the pattern \<^verbatim>\<open>[\n\r\t ]*ALTER \<close>: the pieces between all
  matches, found left to right, each search starting where the match before ended.
\<close>

function alterSplit :: "string \<Rightarrow> string list" where
  "alterSplit s =
     (case reFind reAlter s of
        None \<Rightarrow> [s]
      | Some (p, r) \<Rightarrow> p # alterSplit r)"
  by pat_completeness auto
termination
  by (relation "measure length") (auto dest: reFind_shorter reAlter_shorter)

declare alterSplit.simps [simp del]

text \<open>
  \<^verbatim>\<open>ReplaceAllString(s, "\n/\n")\<close> with the pattern \<^verbatim>\<open>[\n\r\t ]+/\n\<close>: every
  match, found left to right, becomes a line feed, a slash and a line feed.
\<close>

function slashReplace :: "string \<Rightarrow> string" where
  "slashReplace s =
     (case reFind reSlash s of
        None \<Rightarrow> s
      | Some (p, r) \<Rightarrow> p @ [LF, CHR ''/'', LF] @ slashReplace r)"
  by pat_completeness auto
termination
  by (relation "measure length") (auto dest: reFind_shorter reSlash_shorter)

declare slashReplace.simps [simp del]

section \<open>The database, errors and the log\<close>

text \<open>
  The database is outside the program. Each query of the program is named; a query with
  its bind values either fails or yields rows, and reading a row into a text
  variable (\<^verbatim>\<open>rows.Scan\<close>) either fails or yields the text. What the program sends
  to the database and what it writes to the log is recorded as a list of events.
\<close>

datatype error = DataAccessError string | FunkyTriggers string string

datatype query =
    QObjDDL | QObjTriggers | QObjIndices | QColComments | QTableComments | QMViewComments
  | QObjGrantedPrivs | QObjNeededPrivs | QObjSynonyms | QSchemaList

type_synonym rows = "(error + string) list"

type_synonym db = "query \<Rightarrow> string list \<Rightarrow> error + rows"

datatype event = Queried query "string list" | Logged error

text \<open>A Go result pair \<^verbatim>\<open>(string, error)\<close>; \<open>None\<close> is \<^verbatim>\<open>nil\<close>.\<close>

type_synonym ret = "string \<times> error option"

definition carp :: "bool \<Rightarrow> error option \<Rightarrow> event list" where
  "carp quiet err =
     (case err of None \<Rightarrow> [] | Some e \<Rightarrow> if quiet then [] else [Logged e])"

definition typeDatabaseLink :: string where "typeDatabaseLink = ''DATABASE LINK''"
definition typeMaterializedView :: string where "typeMaterializedView = ''MATERIALIZED VIEW''"
definition typeTable :: string where "typeTable = ''TABLE''"
definition typeView :: string where "typeView = ''VIEW''"

section \<open>The metadata queries\<close>

text \<open>
  \<^verbatim>\<open>runQuery\<close>: every row is appended with its trailing white space removed, and the
  rows are joined by a blank line; a failing query or a failing row gives the empty text
  and the error.
\<close>

fun runQuery_rows :: "os \<Rightarrow> rows \<Rightarrow> string list \<Rightarrow> ret" where
  "runQuery_rows os [] l = (joinStr l (dblSpace os), None)"
| "runQuery_rows os (Inl e # rs) l = ([], Some e)"
| "runQuery_rows os (Inr rslt # rs) l = runQuery_rows os rs (appendLine l rslt)"

definition runQuery :: "os \<Rightarrow> db \<Rightarrow> query \<Rightarrow> string \<Rightarrow> string \<Rightarrow> ret \<times> event list" where
  "runQuery os db q schema name =
     (case db q [schema, name] of
        Inl e \<Rightarrow> (([], Some e), [Queried q [schema, name]])
      | Inr rs \<Rightarrow> (runQuery_rows os rs [], [Queried q [schema, name]]))"

definition ColComments :: "os \<Rightarrow> db \<Rightarrow> string \<Rightarrow> string \<Rightarrow> string \<Rightarrow> ret \<times> event list" where
  "ColComments os db schema name objType = runQuery os db QColComments schema name"

definition ObjGrantedPrivs :: "os \<Rightarrow> db \<Rightarrow> string \<Rightarrow> string \<Rightarrow> string \<Rightarrow> ret \<times> event list" where
  "ObjGrantedPrivs os db schema name objType = runQuery os db QObjGrantedPrivs schema name"

definition ObjIndices :: "os \<Rightarrow> db \<Rightarrow> string \<Rightarrow> string \<Rightarrow> string \<Rightarrow> ret \<times> event list" where
  "ObjIndices os db schema name objType = runQuery os db QObjIndices schema name"

definition ObjNeededPrivs :: "os \<Rightarrow> db \<Rightarrow> string \<Rightarrow> string \<Rightarrow> string \<Rightarrow> ret \<times> event list" where
  "ObjNeededPrivs os db schema name objType = runQuery os db QObjNeededPrivs schema name"

definition MViewComments :: "os \<Rightarrow> db \<Rightarrow> string \<Rightarrow> string \<Rightarrow> string \<Rightarrow> ret \<times> event list" where
  "MViewComments os db schema name objType = runQuery os db QMViewComments schema name"

definition TableComments :: "os \<Rightarrow> db \<Rightarrow> string \<Rightarrow> string \<Rightarrow> string \<Rightarrow> ret \<times> event list" where
  "TableComments os db schema name objType = runQuery os db QTableComments schema name"

definition ObjComments :: "os \<Rightarrow> db \<Rightarrow> string \<Rightarrow> string \<Rightarrow> string \<Rightarrow> ret \<times> event list" where
  "ObjComments os db schema name objType =
     (if objType = typeMaterializedView then MViewComments os db schema name objType
      else TableComments os db schema name objType)"

section \<open>The DDL of one object\<close>

text \<open>
  The fix for views and materialized views in \<^verbatim>\<open>ObjDDL\<close>: when the last line holds
  a comment marker, a line with a semicolon is added and the lines are joined again.
\<close>

definition ObjDDL_view :: "os \<Rightarrow> string \<Rightarrow> string" where
  "ObjDDL_view os DDL =
     (let s = splitLines DDL
      in if reMatches reDashes (last s) then joinStr (s @ ['';'']) (newLine os) else DDL)"

text \<open>
  \<^verbatim>\<open>ObjDDL\<close>: the type is translated for the metadata service, the first row of the
  answer is trimmed, and the text is fixed according to the type of the object. No row
  gives the empty text and no error.
\<close>

definition ObjDDL_type :: "string \<Rightarrow> string" where
  "ObjDDL_type objType =
     (if objType = typeDatabaseLink then ''DB_LINK''
      else if objType = typeMaterializedView then ''MATERIALIZED_VIEW''
      else objType)"

definition ObjDDL :: "os \<Rightarrow> db \<Rightarrow> string \<Rightarrow> string \<Rightarrow> string \<Rightarrow> ret \<times> event list" where
  "ObjDDL os db schema name objType =
     (let ddlType = ObjDDL_type objType;
          ev = [Queried QObjDDL [ddlType, name, schema]]
      in (case db QObjDDL [ddlType, name, schema] of
            Inl e \<Rightarrow> (([], Some e), ev)
          | Inr [] \<Rightarrow> (([], None), ev)
          | Inr (Inl e # rs) \<Rightarrow> (([], Some e), ev)
          | Inr (Inr raw # rs) \<Rightarrow>
              (let DDL = trimString raw
               in ((if objType = typeView \<or> objType = typeMaterializedView
                    then ObjDDL_view os DDL
                    else slashReplace DDL, None), ev))))"

section \<open>The triggers of a table or view\<close>

text \<open>
  The first fix of \<^verbatim>\<open>ObjTriggers\<close>, on one trimmed trigger text: the text is split
  at the first \<^verbatim>\<open>ON\<close> between white space; when the word after it has no dot, the
  schema is put in front of it in double quotes. The second component tells whether the
  split found the clause (\<^verbatim>\<open>len(s) > 1\<close>).
\<close>

definition ObjTriggers_on :: "string \<Rightarrow> string \<Rightarrow> string \<times> bool" where
  "ObjTriggers_on schema rslt =
     (let s = reSplit2 reOn rslt
      in if length s > 1
         then (let t = reSplit2 reWs (s ! 1);
                   u = strSplit (hd t) ''.''
               in if length u = 1 \<and> length s > 1
                  then (s ! 0 @ '' ON '' @ [DQ] @ schema @ [DQ] @ ''.'' @ s ! 1, True)
                  else (rslt, True))
         else (rslt, False))"

text \<open>The cutset \<^verbatim>\<open>"\n\r\t /"\<close>.\<close>

definition blockEnd :: string where
  "blockEnd = [LF, CR, TAB, SPC, CHR ''/'']"

text \<open>
  The second step of \<^verbatim>\<open>ObjTriggers\<close>, on the text the first step left: the fragments
  that one trigger adds to the list. The test is the one of the source, on the split at
  \<^verbatim>\<open>ON\<close>.
\<close>

definition ObjTriggers_frags :: "os \<Rightarrow> bool \<Rightarrow> string \<Rightarrow> string list" where
  "ObjTriggers_frags os found rslt =
     (let v = strSplit rslt ''ALTER TRIGGER''
      in if found
         then (strTrimRight (hd v) blockEnd @ newLine os @ ''/'')
              # map (\<lambda>x. ''ALTER TRIGGER'' @ strTrimRight x blockEnd) (tl v)
         else [strTrimRight rslt blockEnd @ newLine os @ ''/''])"

fun ObjTriggers_rows ::
  "os \<Rightarrow> bool \<Rightarrow> string \<Rightarrow> string \<Rightarrow> rows \<Rightarrow> string list \<Rightarrow> ret \<times> event list" where
  "ObjTriggers_rows os quiet schema name [] triggers =
     ((joinStr triggers (dblSpace os), None), [])"
| "ObjTriggers_rows os quiet schema name (Inl e # rs) triggers = (([], Some e), [])"
| "ObjTriggers_rows os quiet schema name (Inr raw # rs) triggers =
     (let fixed = ObjTriggers_on schema (trimString raw);
          ev = (if snd fixed then [] else carp quiet (Some (FunkyTriggers schema name)))
      in (case ObjTriggers_rows os quiet schema name rs
                 (triggers @ ObjTriggers_frags os (snd fixed) (fst fixed)) of
            (r, evs) \<Rightarrow> (r, ev @ evs)))"

definition ObjTriggers ::
  "os \<Rightarrow> db \<Rightarrow> string \<Rightarrow> string \<Rightarrow> string \<Rightarrow> bool \<Rightarrow> ret \<times> event list" where
  "ObjTriggers os db schema name objType quiet =
     (case db QObjTriggers [schema, name] of
        Inl e \<Rightarrow> (([], Some e), [Queried QObjTriggers [schema, name]])
      | Inr rs \<Rightarrow>
          (case ObjTriggers_rows os quiet schema name rs [] of
             (r, evs) \<Rightarrow> (r, Queried QObjTriggers [schema, name] # evs)))"

section \<open>The assembly\<close>

text \<open>
  \<^verbatim>\<open>exportTableView\<close>. The fragments are collected in the list \<open>l\<close> in the order of
  the source; the error variable is assigned by every fetch, so the error returned at the
  end is the one of the last fetch, the triggers.
\<close>

definition exportTableView ::
  "os \<Rightarrow> db \<Rightarrow> string \<Rightarrow> string \<Rightarrow> string \<Rightarrow> bool \<Rightarrow> ret \<times> event list" where
  "exportTableView os db schema name objType quiet =
     (case ObjDDL os db schema name objType of
        ((objDDL, Some e), ev0) \<Rightarrow> (([], Some e), ev0)
      | ((objDDL, None), ev0) \<Rightarrow>
          (let s = alterSplit objDDL;
               l1 = appendLine [] (hd s);
               idx = (if objType = typeTable \<or> objType = typeMaterializedView
                      then (case ObjIndices os db schema name objType of
                              ((d, err), ev) \<Rightarrow> (appendLine l1 d, ev @ carp quiet err))
                      else (l1, []));
               l3 = (if length s > 1
                     then foldl (\<lambda>l cmd. appendLine l (''ALTER '' @ cmd)) (fst idx) (sort (tl s))
                     else fst idx);
               com = ObjComments os db schema name objType;
               l4 = appendLine l3 (fst (fst com));
               col = ColComments os db schema name objType;
               l5 = appendLine l4 (fst (fst col));
               trg = ObjTriggers os db schema name objType quiet;
               l6 = appendLine l5 (fst (fst trg))
           in ((joinStr l6 (dblSpace os), snd (fst trg)),
               ev0 @ snd idx @ snd com @ carp quiet (snd (fst com))
                   @ snd col @ carp quiet (snd (fst col))
                   @ snd trg @ carp quiet (snd (fst trg)))))"

text \<open>
  \<^verbatim>\<open>ExportDDL\<close>. Again the error returned at the end is the one of the last fetch
  that ran: the granted privileges, else the needed privileges, else none.
\<close>

definition ExportDDL ::
  "os \<Rightarrow> db \<Rightarrow> string \<Rightarrow> string \<Rightarrow> string \<Rightarrow> bool \<Rightarrow> bool \<Rightarrow> bool \<Rightarrow> ret \<times> event list" where
  "ExportDDL os db schema name objType quiet neededGrants objectGrants =
     (case (if objType = typeTable \<or> objType = typeView \<or> objType = typeMaterializedView
            then exportTableView os db schema name objType quiet
            else ObjDDL os db schema name objType) of
        ((objDDL, Some e), ev0) \<Rightarrow> (([], Some e), ev0)
      | ((objDDL, None), ev0) \<Rightarrow>
          (let needed = (if neededGrants
                         then (case ObjNeededPrivs os db schema name objType of
                                 ((grants, err), ev) \<Rightarrow>
                                   (appendLine [] grants, err, ev @ carp quiet err))
                         else ([], None, []));
               l2 = appendLine (fst needed) objDDL;
               granted = (if objectGrants
                          then (case ObjGrantedPrivs os db schema name objType of
                                  ((d, err), ev) \<Rightarrow> (appendLine l2 d, err, ev @ carp quiet err))
                          else (l2, fst (snd needed), []))
           in ((joinStr (fst granted) (dblSpace os), fst (snd granted)),
               ev0 @ snd (snd needed) @ snd (snd granted))))"

section \<open>The command: the schemas to extract\<close>

text \<open>
  \<^verbatim>\<open>csvSplit\<close>: the pieces of a comma-separated list, each mapped to its position (a
  later position replaces an earlier one).
\<close>

definition csvSplit :: "string \<Rightarrow> (string \<rightharpoonup> nat)" where
  "csvSplit s = foldl (\<lambda>l (i, v). l(v \<mapsto> i)) Map.empty (enumerate 0 (strSplit s '',''))"

text \<open>
  The catalogue view \<^verbatim>\<open>dba_objects\<close>, as far as the query of \<^verbatim>\<open>getSchemaList\<close>
  reads it, and the query itself: the distinct owners of the objects of the extracted
  types, without the owners in the fixed list. (SQL leaves the order of the rows open; the
  model keeps the order of the view.)
\<close>

record dba_object =
  owner :: string
  object_name :: string
  object_type :: string

definition internalSchemas :: "string list" where
  "internalSchemas =
     [''APPQOSSYS'', ''AUDSYS'', ''CTXSYS'', ''DBSFWUSER'', ''DBSNMP'', ''DMSYS'', ''EXFSYS'',
      ''GSMADMIN_INTERNAL'', ''MDSYS'', ''OJVMSYS'', ''OLAPSYS'', ''ORACLE_OCM'', ''ORDSYS'',
      ''OUTLN'', ''PERFSTAT'', ''REMOTE_SCHEDULER_AGENT'', ''SQLTXPLAIN'', ''SYS'', ''SYSMAN'',
      ''SYSTEM'', ''TSMSYS'', ''WMSYS'', ''XDB'']"

definition extractedTypes :: "string list" where
  "extractedTypes =
     [''DATABASE LINK'', ''FUNCTION'', ''MATERIALIZED VIEW'', ''PACKAGE'', ''PROCEDURE'',
      ''SEQUENCE'', ''TABLE'', ''TYPE'', ''VIEW'']"

definition schemaListQuery :: "dba_object list \<Rightarrow> string list" where
  "schemaListQuery objs =
     remdups (map owner
       (filter (\<lambda>x. owner x \<notin> set internalSchemas \<and> object_type x \<in> set extractedTypes) objs))"

text \<open>
  The session of the command: the catalogue view, or the error of the query, and the
  rows whose reading fails.
\<close>

record session =
  dba_objects :: "error + dba_object list"
  scan_error :: "string \<Rightarrow> error option"

text \<open>
  The loop of \<^verbatim>\<open>getSchemaList\<close> over the rows; \<open>err\<close> is the error variable of the
  source, which every \<^verbatim>\<open>Scan\<close> assigns.
\<close>

fun getSchemaList_rows ::
  "string \<Rightarrow> string \<Rightarrow> bool \<Rightarrow> (string \<rightharpoonup> nat) \<Rightarrow> (string \<rightharpoonup> nat) \<Rightarrow> rows \<Rightarrow> string list
     \<Rightarrow> error option \<Rightarrow> (string list \<times> error option) \<times> event list" where
  "getSchemaList_rows schemas xclude quiet included excluded [] l err = ((l, err), [])"
| "getSchemaList_rows schemas xclude quiet included excluded (Inl e # rs) l err =
     (case getSchemaList_rows schemas xclude quiet included excluded rs l (Some e) of
        (r, evs) \<Rightarrow> (r, carp quiet (Some e) @ evs))"
| "getSchemaList_rows schemas xclude quiet included excluded (Inr schema # rs) l err =
     getSchemaList_rows schemas xclude quiet included excluded rs
       (if schemas \<noteq> [] then (if included schema \<noteq> None then l @ [schema] else l)
        else if xclude \<noteq> [] then (if excluded schema = None then l @ [schema] else l)
        else l @ [schema])
       None"

definition getSchemaList ::
  "session \<Rightarrow> string \<Rightarrow> string \<Rightarrow> bool \<Rightarrow> (string list \<times> error option) \<times> event list" where
  "getSchemaList db schemas xclude quiet =
     (let included = csvSplit schemas;
          excluded = csvSplit xclude
      in (case dba_objects db of
            Inl e \<Rightarrow> (([], Some e), [Queried QSchemaList []])
          | Inr objs \<Rightarrow>
              (case getSchemaList_rows schemas xclude quiet included excluded
                      (map (\<lambda>x. case scan_error db x of None \<Rightarrow> Inr x | Some e \<Rightarrow> Inl e)
                         (schemaListQuery objs)) [] None of
                 (r, evs) \<Rightarrow> (r, Queried QSchemaList [] # evs))))"

section \<open>The command: names of objects\<close>

text \<open>
  \<^verbatim>\<open>splitObjName\<close>: the text is split at every dot; a piece that contains a double
  quote loses its quotes and keeps its case, any other piece is upper-cased; one piece is
  the object name, two are schema and name, any other number leaves both results empty.
\<close>

definition splitObjName_piece :: "(string \<Rightarrow> string) \<Rightarrow> string \<Rightarrow> string" where
  "splitObjName_piece uc p =
     (if strContains p [DQ] then strReplaceAll p [DQ] [] else strToUpper uc p)"

definition splitObjName :: "(string \<Rightarrow> string) \<Rightarrow> string \<Rightarrow> string \<times> string" where
  "splitObjName uc objectName =
     (let fq = map (splitObjName_piece uc) (strSplit objectName ''.'')
      in (case fq of
            [n] \<Rightarrow> ([], n)
          | [s, n] \<Rightarrow> (s, n)
          | _ \<Rightarrow> ([], [])))"

text \<open>
  The result for one dot-separated segment in the words of the specification: a segment
  with quotes has them stripped and keeps its case, any other segment is upper-cased.
\<close>

definition segmentAsSpecified :: "(string \<Rightarrow> string) \<Rightarrow> string \<Rightarrow> string" where
  "segmentAsSpecified uc q =
     (if DQ \<in> set q then filter (\<lambda>c. c \<noteq> DQ) q else strToUpper uc q)"


section \<open>Notions used in the statements\<close>

text \<open>
  The \<^verbatim>\<open>ALTER\<close> fragments that \<^verbatim>\<open>exportTableView\<close> appends for an object text: the
  pieces after the first one, sorted, each with \<^verbatim>\<open>ALTER \<close> in front again and appended
  through \<^verbatim>\<open>appendLine\<close>.
\<close>

definition alterFragments :: "string \<Rightarrow> string list" where
  "alterFragments ddl = map (\<lambda>c. trimLine (''ALTER '' @ c)) (sort (tl (alterSplit ddl)))"

text \<open>The queries that a list of events sent to the database, in order.\<close>

definition queriesOf :: "event list \<Rightarrow> query list" where
  "queriesOf evs = concat (map (\<lambda>e. case e of Queried q a \<Rightarrow> [q] | Logged x \<Rightarrow> []) evs)"

text \<open>A text that is not empty and does not end in white space.\<close>

definition noTrailingWs :: "string \<Rightarrow> bool" where
  "noTrailingWs s = (s \<noteq> [] \<and> \<not> isWs (last s))"

text \<open>A text that is empty or does not end in white space.\<close>

definition trimmedRight :: "string \<Rightarrow> bool" where
  "trimmedRight s = (s = [] \<or> \<not> isWs (last s))"

section \<open>Example inputs\<close>

text \<open>A view whose last line ends in a comment, and a database that holds only it.\<close>

definition view_raw :: string where
  "view_raw = ''CREATE VIEW V AS'' @ [LF] @ ''SELECT 1 FROM DUAL -- one'' @ [LF]"

definition db_view :: db where
  "db_view q args = (if q = QObjDDL then Inr [Inr view_raw] else Inr [])"

text \<open>
  Trigger texts: one with an unqualified table after \<^verbatim>\<open>ON\<close>, one with a qualified
  table, one followed by an \<^verbatim>\<open>ALTER TRIGGER\<close> statement, and a database that holds the
  last one.
\<close>

definition trg_unq :: string where
  "trg_unq = ''CREATE TRIGGER G BEFORE INSERT ON EMPLOYEES FOR EACH ROW BEGIN NULL; END;''"




text \<open>
  A table with two constraints as \<^verbatim>\<open>ALTER\<close> statements, an index, a comment, two column
  comments, a trigger with an unqualified table and both kinds of grants; the trigger text
  as it is expected in the result; the same table without an index, without column
  comments and without triggers; and the first database with a failing query for the
  triggers, for the granted privileges, for the indexes, and with other privileges.
\<close>

definition tbl_ddl :: string where
  "tbl_ddl = ''CREATE TABLE T;'' @ [LF] @ ''  ALTER TABLE T ADD Z;'' @ [LF]
               @ ''  ALTER TABLE T ADD B;''"

definition db_table :: db where
  "db_table q args =
     (if q = QObjDDL then Inr [Inr tbl_ddl]
      else if q = QObjIndices then Inr [Inr ''CREATE INDEX I;'']
      else if q = QTableComments then Inr [Inr ''COMMENT ON TABLE T;'']
      else if q = QColComments then Inr [Inr ''COMMENT ON COLUMN A;'', Inr ''COMMENT ON COLUMN B;'']
      else if q = QObjTriggers then Inr [Inr trg_unq]
      else if q = QObjNeededPrivs then Inr [Inr ''GRANT N;'']
      else if q = QObjGrantedPrivs then Inr [Inr ''GRANT G;'']
      else Inr [])"

definition db_noidx :: db where
  "db_noidx q args =
     (if q = QObjDDL then Inr [Inr ''CREATE TABLE T;'']
      else if q = QTableComments then Inr [Inr ''COMMENT ON TABLE T;'']
      else Inr [])"

definition db_trgfail :: db where
  "db_trgfail q args =
     (if q = QObjTriggers then Inl (DataAccessError ''ORA-00942'') else db_table q args)"

definition db_grantfail :: db where
  "db_grantfail q args =
     (if q = QObjGrantedPrivs then Inl (DataAccessError ''ORA-00942'') else db_table q args)"

definition db_idxfail :: db where
  "db_idxfail q args =
     (if q = QObjIndices then Inl (DataAccessError ''ORA-00942'') else db_table q args)"

definition trg_fixed :: string where
  "trg_fixed = ''CREATE TRIGGER G BEFORE INSERT ON '' @ [DQ] @ ''HR'' @ [DQ]
                 @ ''.EMPLOYEES FOR EACH ROW BEGIN NULL; END;'' @ [LF] @ ''/''"

definition db_table_other_grants :: db where
  "db_table_other_grants
     = db_table(QObjNeededPrivs := (\<lambda>args. Inl (DataAccessError ''ORA-00942'')),
                QObjGrantedPrivs := (\<lambda>args. Inr [Inr ''GRANT ALL ON T TO PUBLIC ;'']))"

text \<open>
  A catalogue with objects of two vendor-internal schemas and of two other schemas, one
  of them an index, which the query does not extract.
\<close>

definition cat_example :: session where
  "cat_example =
     \<lparr>dba_objects = Inr
        [\<lparr>owner = ''SYS'', object_name = ''OBJ$'', object_type = ''TABLE''\<rparr>,
         \<lparr>owner = ''HR'', object_name = ''EMPLOYEES'', object_type = ''TABLE''\<rparr>,
         \<lparr>owner = ''HR'', object_name = ''EMP_V'', object_type = ''VIEW''\<rparr>,
         \<lparr>owner = ''OE'', object_name = ''ORDERS'', object_type = ''TABLE''\<rparr>,
         \<lparr>owner = ''OE'', object_name = ''ORD_PK'', object_type = ''INDEX''\<rparr>,
         \<lparr>owner = ''XDB'', object_name = ''X'', object_type = ''VIEW''\<rparr>],
      scan_error = (\<lambda>x. None)\<rparr>"

section \<open>Facts about the string functions\<close>

lemma strIndex_char:
  "strIndex [c] s = (if c \<in> set s then Some (takeWhile (\<lambda>x. x \<noteq> c) s, tl (dropWhile (\<lambda>x. x \<noteq> c) s)) else None)"
  by (induction s) (auto simp: hasPrefix_def)

lemma strSplit_char_notin: "c \<notin> set s \<Longrightarrow> strSplit s [c] = [s]"
  by (simp add: strSplit.simps [of s] strIndex_char)

lemma strSplit_char_append:
  "c \<notin> set a \<Longrightarrow> strSplit (a @ c # b) [c] = a # strSplit b [c]"
  by (simp add: strSplit.simps [of "a @ c # b"] strIndex_char takeWhile_append dropWhile_append)

lemma strSplit_char_Cons:
  "strSplit (x # xs) [c] =
     (if x = c then [] # strSplit xs [c]
      else (case strSplit xs [c] of h # t \<Rightarrow> (x # h) # t | [] \<Rightarrow> []))"
  by (simp add: strSplit.simps [of "x # xs"] strSplit.simps [of xs] strIndex_char
        del: strIndex.simps split: list.splits)

lemma strSplit_char_length: "length (strSplit s [c]) = Suc (count_list s c)"
  by (induction s) (auto simp: strSplit_char_Cons strSplit.simps [of "[]"] split: list.splits)

lemma strContains_char: "strContains s [c] = (c \<in> set s)"
  by (simp add: strContains_def strIndex_char)

lemma filter_neq_notin: "c \<notin> set a \<Longrightarrow> filter (\<lambda>x. x \<noteq> c) a = a"
  by (induction a) auto

lemma strReplaceAll_char_del: "strReplaceAll s [c] [] = filter (\<lambda>x. x \<noteq> c) s"
proof (induction s rule: length_induct)
  case (1 s)
  show ?case
  proof (cases "c \<in> set s")
    case False
    then show ?thesis
      by (simp add: strReplaceAll.simps [of s] strIndex_char filter_neq_notin)
  next
    case True
    then obtain a b where s: "s = a @ c # b" and a: "c \<notin> set a"
      by (meson split_list_first)
    have "length b < length s" using s by simp
    with 1 have ih: "strReplaceAll b [c] [] = filter (\<lambda>x. x \<noteq> c) b" by blast
    have "strIndex [c] s = Some (a, b)"
      using s a by (simp add: strIndex_char takeWhile_append dropWhile_append)
    then have "strReplaceAll s [c] [] = a @ strReplaceAll b [c] []"
      by (simp add: strReplaceAll.simps [of s])
    with ih s a show ?thesis by (simp add: filter_neq_notin)
  qed
qed

lemma strSplit_Nil: "sep \<noteq> [] \<Longrightarrow> strSplit [] sep = [[]]"
  by (simp add: strSplit.simps [of "[]"])

lemma strSplit_not_Nil: "sep \<noteq> [] \<Longrightarrow> strSplit s sep \<noteq> []"
  by (simp add: strSplit.simps [of s] split: option.splits)

lemma strSplit_char_app: "strSplit (a @ c # b) [c] = strSplit a [c] @ strSplit b [c]"
proof (induction a)
  case Nil
  show ?case by (simp add: strSplit_char_Cons strSplit_Nil)
next
  case (Cons x a)
  obtain h t where ht: "strSplit a [c] = h # t"
    using strSplit_not_Nil [of "[c]" a] by (cases "strSplit a [c]") auto
  show ?case
    by (simp add: strSplit_char_Cons [of x] Cons.IH ht)
qed

lemma strReplaceAll_skip:
  "old \<noteq> [] \<Longrightarrow> \<not> hasPrefix (x # xs) old \<Longrightarrow>
     strReplaceAll (x # xs) old new = x # strReplaceAll xs old new"
  by (simp add: strReplaceAll.simps [of "x # xs"] strReplaceAll.simps [of xs]
      split: option.splits)

lemma strReplaceAll_hit:
  "old \<noteq> [] \<Longrightarrow> hasPrefix (x # xs) old \<Longrightarrow>
     strReplaceAll (x # xs) old new = new @ strReplaceAll (drop (length old) (x # xs)) old new"
  by (simp add: strReplaceAll.simps [of "x # xs"])

lemma strReplaceAll_Nil: "old \<noteq> [] \<Longrightarrow> strReplaceAll [] old new = []"
  by (simp add: strReplaceAll.simps [of "[]"])

lemma strIndex_None: "c \<notin> set t \<Longrightarrow> strIndex (c # cs) t = None"
  by (induction t) (auto simp: hasPrefix_def)

lemma strReplaceAll_absent: "c \<notin> set t \<Longrightarrow> strReplaceAll t (c # cs) new = t"
  by (simp add: strReplaceAll.simps [of t] strIndex_None)


lemma joinStr_Cons: "ys \<noteq> [] \<Longrightarrow> joinStr (x # ys) sep = x @ sep @ joinStr ys sep"
  by (cases ys) auto


lemma joinStr_snoc: "xs \<noteq> [] \<Longrightarrow> joinStr (xs @ [x]) sep = joinStr xs sep @ sep @ x"
  by (induction xs sep rule: joinStr.induct) auto

lemma strTrimRight_last: "strTrimRight x cs \<noteq> [] \<Longrightarrow> last (strTrimRight x cs) \<notin> set cs"
proof -
  assume a: "strTrimRight x cs \<noteq> []"
  then have "dropWhile (\<lambda>c. c \<in> set cs) (rev x) \<noteq> []" by (simp add: strTrimRight_def)
  then have "\<not> hd (dropWhile (\<lambda>c. c \<in> set cs) (rev x)) \<in> set cs" by (rule hd_dropWhile)
  then show ?thesis using a by (simp add: strTrimRight_def last_rev)
qed

text \<open>
  The index expressions of the source are in range: no split gives an empty list (see also
  \<open>strSplit_not_Nil\<close>, and \<open>alterSplit_not_Nil\<close> and \<open>splitLines_not_Nil\<close> below), so
  \<^verbatim>\<open>s[0]\<close>, \<^verbatim>\<open>t[0]\<close>, \<^verbatim>\<open>v[0]\<close> and \<^verbatim>\<open>s[len(s)-1]\<close> are the head and the last
  element that the model takes.
\<close>

lemma reSplit2_not_Nil: "reSplit2 m s \<noteq> []"
  by (simp add: reSplit2_def split: option.splits)


section \<open>Names of objects\<close>

lemma splitObjName_piece_eq: "splitObjName_piece uc q = segmentAsSpecified uc q"
  by (simp add: splitObjName_piece_def segmentAsSpecified_def strContains_char
      strReplaceAll_char_del)

lemma splitObjName_many:
  assumes "3 \<le> length fq"
  shows "(case fq of [n] \<Rightarrow> ([], n) | [s, n] \<Rightarrow> (s, n) | _ \<Rightarrow> ([], [])) = (([], []) :: string \<times> string)"
  using assms by (auto split: list.splits)

text \<open>
  C10. A name with three or more dot-separated segments (two or more dots) gives the empty
  schema and the empty object name; a name without a dot gives the empty schema and its
  segment as the object name; a name with exactly one dot gives its two segments as
  schema and object name. Each segment is upper-cased when it holds no double quote, and
  loses its double quotes but keeps its case when it holds one.
\<close>

theorem splitObjName_by_segments:
  "(2 \<le> count_list s3 (CHR ''.'') \<longrightarrow> splitObjName uc s3 = ([], [])) \<and>
   (CHR ''.'' \<notin> set s1 \<longrightarrow> splitObjName uc s1 = ([], segmentAsSpecified uc s1)) \<and>
   (CHR ''.'' \<notin> set a \<and> CHR ''.'' \<notin> set b \<longrightarrow>
      splitObjName uc (a @ ''.'' @ b) = (segmentAsSpecified uc a, segmentAsSpecified uc b))"
proof (intro conjI impI)
  assume "2 \<le> count_list s3 (CHR ''.'')"
  then have "3 \<le> length (map (splitObjName_piece uc) (strSplit s3 ''.''))"
    by (simp add: strSplit_char_length)
  then show "splitObjName uc s3 = ([], [])"
    unfolding splitObjName_def Let_def by (rule splitObjName_many)
next
  assume "CHR ''.'' \<notin> set s1"
  then show "splitObjName uc s1 = ([], segmentAsSpecified uc s1)"
    by (simp add: splitObjName_def strSplit_char_notin splitObjName_piece_eq)
next
  assume "CHR ''.'' \<notin> set a \<and> CHR ''.'' \<notin> set b"
  then show "splitObjName uc (a @ ''.'' @ b) = (segmentAsSpecified uc a, segmentAsSpecified uc b)"
    by (simp add: splitObjName_def strSplit_char_append strSplit_char_notin
        splitObjName_piece_eq)
qed

theorem splitObjName_by_segments_witness:
  "2 \<le> count_list ''a.b.c'' (CHR ''.'') \<and> splitObjName (\<lambda>s. s) ''a.b.c'' = ([], []) \<and>
   CHR ''.'' \<notin> set ''emp'' \<and> splitObjName (\<lambda>s. s) ''emp'' = ([], ''EMP'') \<and>
   CHR ''.'' \<notin> set ''hr'' \<and> CHR ''.'' \<notin> set [DQ, CHR ''E'', CHR ''m'', CHR ''p'', DQ] \<and>
   splitObjName (\<lambda>s. s) (''hr'' @ ''.'' @ [DQ, CHR ''E'', CHR ''m'', CHR ''p'', DQ]) = (''HR'', ''Emp'')"
proof -
  have e1: "segmentAsSpecified (\<lambda>s. s) ''emp'' = ''EMP''"
    by code_simp
  have e2: "segmentAsSpecified (\<lambda>s. s) ''hr'' = ''HR''"
    by code_simp
  have e3: "segmentAsSpecified (\<lambda>s. s) [DQ, CHR ''E'', CHR ''m'', CHR ''p'', DQ] = ''Emp''"
    by code_simp
  show ?thesis
    using splitObjName_by_segments [of "''a.b.c''" "\<lambda>s. s" "''emp''" "''hr''"
        "[DQ, CHR ''E'', CHR ''m'', CHR ''p'', DQ]"]
    by (simp add: e1 e2 e3)
qed

section \<open>The terminator of views\<close>

lemma crlf_before_LF:
  "\<exists>w'. strReplaceAll (w @ LF # t) [CR, LF] [LF] = w' @ LF # strReplaceAll t [CR, LF] [LF]"
proof (induction w rule: induct_list012)
  case 1
  have "strReplaceAll (LF # t) [CR, LF] [LF] = LF # strReplaceAll t [CR, LF] [LF]"
    by (rule strReplaceAll_skip) (simp_all add: hasPrefix_def)
  then show ?case by simp
next
  case (2 x)
  show ?case
  proof (cases "x = CR")
    case True
    have "strReplaceAll (CR # LF # t) [CR, LF] [LF] = [LF] @ strReplaceAll (drop (length [CR, LF]) (CR # LF # t)) [CR, LF] [LF]"
      by (rule strReplaceAll_hit) (simp_all add: hasPrefix_def)
    with True show ?thesis by simp
  next
    case False
    have "strReplaceAll (x # LF # t) [CR, LF] [LF] = x # strReplaceAll (LF # t) [CR, LF] [LF]"
      using False by (intro strReplaceAll_skip) (simp_all add: hasPrefix_def)
    also have "strReplaceAll (LF # t) [CR, LF] [LF] = LF # strReplaceAll t [CR, LF] [LF]"
      by (rule strReplaceAll_skip) (simp_all add: hasPrefix_def)
    finally show ?thesis by simp
  qed
next
  case (3 x y zs)
  show ?case
  proof (cases "x = CR \<and> y = LF")
    case True
    have "strReplaceAll (CR # LF # zs @ LF # t) [CR, LF] [LF]
            = [LF] @ strReplaceAll (drop (length [CR, LF]) (CR # LF # zs @ LF # t)) [CR, LF] [LF]"
      by (rule strReplaceAll_hit) (simp_all add: hasPrefix_def)
    with True 3(1) show ?thesis by (auto intro: exI [of _ "LF # w'" for w'])
  next
    case False
    then have "strReplaceAll (x # (y # zs) @ LF # t) [CR, LF] [LF]
            = x # strReplaceAll ((y # zs) @ LF # t) [CR, LF] [LF]"
      by (intro strReplaceAll_skip) (auto simp: hasPrefix_def)
    with 3(2) show ?thesis by (auto intro: exI [of _ "x # w'" for w'])
  qed
qed

lemma last_splitLines_after_LF:
  assumes "CR \<notin> set t" "LF \<notin> set t"
  shows "last (splitLines (w @ LF # t)) = t"
proof -
  obtain w' where "strReplaceAll (w @ LF # t) [CR, LF] [LF] = w' @ LF # strReplaceAll t [CR, LF] [LF]"
    using crlf_before_LF by blast
  then have "splitLines (w @ LF # t) = strSplit w' [LF] @ strSplit t [LF]"
    using assms(1) by (simp add: splitLines_def strReplaceAll_absent strSplit_char_app)
  then show ?thesis
    using assms(2) by (simp add: strSplit_char_notin)
qed

lemma splitLines_not_Nil: "splitLines s \<noteq> []"
  by (simp add: splitLines_def strSplit_not_Nil)

lemma newLine_LF: "\<exists>w. newLine os = w @ [LF]"
  by (cases os) (auto simp: newLine_def)

lemma reDashes_semicolon: "\<not> reMatches reDashes '';''"
  by (simp add: reMatches_def reDashes_def hasPrefix_def)

lemma ObjDDL_view_added:
  assumes "reMatches reDashes (last (splitLines DDL))"
  shows "ObjDDL_view os DDL = joinStr (splitLines DDL) (newLine os) @ newLine os @ '';''"
    and "last (splitLines (ObjDDL_view os DDL)) = '';''"
proof -
  show a: "ObjDDL_view os DDL = joinStr (splitLines DDL) (newLine os) @ newLine os @ '';''"
    using assms by (simp add: ObjDDL_view_def Let_def joinStr_snoc splitLines_not_Nil)
  obtain w where w: "newLine os = w @ [LF]" using newLine_LF by blast
  have b: "ObjDDL_view os DDL = (joinStr (splitLines DDL) (newLine os) @ w) @ LF # '';''"
    by (simp add: a w)
  have "last (splitLines ((joinStr (splitLines DDL) (newLine os) @ w) @ LF # '';'')) = '';''"
    by (rule last_splitLines_after_LF) simp_all
  then show "last (splitLines (ObjDDL_view os DDL)) = '';''"
    by (simp only: b)
qed

lemma ObjDDL_view_idem: "ObjDDL_view os (ObjDDL_view os DDL) = ObjDDL_view os DDL"
proof (cases "reMatches reDashes (last (splitLines DDL))")
  case True
  then have "last (splitLines (ObjDDL_view os DDL)) = '';''"
    by (rule ObjDDL_view_added(2))
  then show ?thesis
    using reDashes_semicolon by (simp add: ObjDDL_view_def [of os "ObjDDL_view os DDL"] Let_def)
next
  case False
  then show ?thesis by (simp add: ObjDDL_view_def Let_def)
qed

text \<open>
  C3. For a view or a materialized view whose fetched text, once trimmed, has a last line
  that matches the comment marker, the text that \<^verbatim>\<open>ObjDDL\<close> returns is the lines of
  the fetched text joined again and one more line that holds only a semicolon; its last
  line is that semicolon, and applying the fix to this text again leaves it as it is: no
  second terminator is added.
\<close>

theorem ObjDDL_view_terminator:
  assumes "objType = typeView \<or> objType = typeMaterializedView"
    and "db QObjDDL [ObjDDL_type objType, name, schema] = Inr (Inr raw # rs)"
    and "reMatches reDashes (last (splitLines (trimString raw)))"
  shows "fst (ObjDDL os db schema name objType)
           = (joinStr (splitLines (trimString raw)) (newLine os) @ newLine os @ '';'', None) \<and>
         last (splitLines (fst (fst (ObjDDL os db schema name objType)))) = '';'' \<and>
         ObjDDL_view os (fst (fst (ObjDDL os db schema name objType)))
           = fst (fst (ObjDDL os db schema name objType))"
proof -
  have "fst (ObjDDL os db schema name objType) = (ObjDDL_view os (trimString raw), None)"
    using assms(1,2) by (auto simp: ObjDDL_def Let_def)
  then show ?thesis
    using ObjDDL_view_added [OF assms(3), of os] ObjDDL_view_idem [of os "trimString raw"]
    by simp
qed

theorem ObjDDL_view_terminator_witness:
  "(''VIEW'' = typeView \<or> ''VIEW'' = typeMaterializedView) \<and>
   db_view QObjDDL [ObjDDL_type ''VIEW'', ''V'', ''HR''] = Inr (Inr view_raw # []) \<and>
   reMatches reDashes (last (splitLines (trimString view_raw))) \<and>
   fst (ObjDDL Other db_view ''HR'' ''V'' ''VIEW'')
     = (''CREATE VIEW V AS'' @ [LF] @ ''SELECT 1 FROM DUAL -- one'' @ [LF] @ '';'', None) \<and>
   last (splitLines (fst (fst (ObjDDL Other db_view ''HR'' ''V'' ''VIEW'')))) = '';'' \<and>
   ObjDDL_view Other (fst (fst (ObjDDL Other db_view ''HR'' ''V'' ''VIEW'')))
     = fst (fst (ObjDDL Other db_view ''HR'' ''V'' ''VIEW''))"
proof -
  have h1: "''VIEW'' = typeView \<or> ''VIEW'' = typeMaterializedView"
    by (simp add: typeView_def)
  have h2: "db_view QObjDDL [ObjDDL_type ''VIEW'', ''V'', ''HR''] = Inr (Inr view_raw # [])"
    by (simp add: db_view_def)
  have h3: "reMatches reDashes (last (splitLines (trimString view_raw)))"
    by code_simp
  have e: "joinStr (splitLines (trimString view_raw)) (newLine Other) @ newLine Other @ '';''
             = ''CREATE VIEW V AS'' @ [LF] @ ''SELECT 1 FROM DUAL -- one'' @ [LF] @ '';''"
    by code_simp
  note w = ObjDDL_view_terminator [where objType = "''VIEW''" and db = db_view and name = "''V''"
      and schema = "''HR''" and raw = view_raw and rs = "[]" and os = Other, OF h1 h2 h3]
  from w e have c1: "fst (ObjDDL Other db_view ''HR'' ''V'' ''VIEW'')
     = (''CREATE VIEW V AS'' @ [LF] @ ''SELECT 1 FROM DUAL -- one'' @ [LF] @ '';'', None)"
    by (simp only:)
  from w have c2: "last (splitLines (fst (fst (ObjDDL Other db_view ''HR'' ''V'' ''VIEW'')))) = '';''"
    and c3: "ObjDDL_view Other (fst (fst (ObjDDL Other db_view ''HR'' ''V'' ''VIEW'')))
               = fst (fst (ObjDDL Other db_view ''HR'' ''V'' ''VIEW''))"
    by (rule conjunct1 [OF conjunct2], rule conjunct2 [OF conjunct2])
  show ?thesis
    by (intro conjI; fact)
qed

section \<open>The schema of the table of a trigger\<close>

lemma reFind_decomp: "reFind m s = Some (p, r) \<Longrightarrow> \<exists>t. s = p @ t \<and> m t = Some r"
proof (induction s arbitrary: p)
  case Nil
  then show ?case by (auto split: option.splits)
next
  case (Cons c cs)
  show ?case
  proof (cases "m (c # cs)")
    case (Some r')
    with Cons.prems show ?thesis by auto
  next
    case None
    with Cons.prems obtain p' where p': "reFind m cs = Some (p', r)" "p = c # p'"
      by (auto split: option.splits)
    from Cons.IH [OF p'(1)] p'(2) show ?thesis by auto
  qed
qed





section \<open>The fragments of a trigger\<close>

lemma alter_fragment_last:
  "last (''ALTER TRIGGER'' @ strTrimRight x blockEnd) \<notin> set blockEnd"
proof (cases "strTrimRight x blockEnd = []")
  case True
  then show ?thesis by (simp add: blockEnd_def)
next
  case False
  then show ?thesis using strTrimRight_last [of x blockEnd] by simp
qed




section \<open>The fragments of an assembly\<close>

lemma foldl_appendLine:
  "foldl (\<lambda>l cmd. appendLine l (f cmd)) l0 xs = l0 @ map (\<lambda>c. trimLine (f c)) xs"
  by (induction xs arbitrary: l0) (simp_all add: appendLine_def)

lemma exportTableView_failed:
  assumes "fst (ObjDDL os db schema name objType) = (ddl, Some e)"
  shows "exportTableView os db schema name objType quiet
           = (([], Some e), snd (ObjDDL os db schema name objType))"
  using assms by (cases "ObjDDL os db schema name objType") (auto simp: exportTableView_def)

lemma exportTableView_fragments:
  assumes "fst (ObjDDL os db schema name objType) = (ddl, None)"
  shows "fst (exportTableView os db schema name objType quiet)
           = (joinStr
                ([trimLine (hd (alterSplit ddl))]
                 @ (if objType = typeTable \<or> objType = typeMaterializedView
                    then [trimLine (fst (fst (ObjIndices os db schema name objType)))] else [])
                 @ alterFragments ddl
                 @ [trimLine (fst (fst (ObjComments os db schema name objType))),
                    trimLine (fst (fst (ColComments os db schema name objType))),
                    trimLine (fst (fst (ObjTriggers os db schema name objType quiet)))])
                (dblSpace os),
              snd (fst (ObjTriggers os db schema name objType quiet)))"
proof -
  obtain ev0 where p: "ObjDDL os db schema name objType = ((ddl, None), ev0)"
    using assms by (cases "ObjDDL os db schema name objType") auto
  have tl_one: "\<not> 1 < length (alterSplit ddl) \<Longrightarrow> tl (alterSplit ddl) = []"
    by (cases "alterSplit ddl") auto
  show ?thesis
    unfolding exportTableView_def p Let_def foldl_appendLine alterFragments_def
    by (cases "1 < length (alterSplit ddl)";
        cases "objType = typeTable \<or> objType = typeMaterializedView")
       (simp_all add: appendLine_def tl_one split: prod.splits del: joinStr.simps)
qed

lemma ExportDDL_failed:
  assumes "fst (if objType = typeTable \<or> objType = typeView \<or> objType = typeMaterializedView
            then exportTableView os db schema name objType quiet
            else ObjDDL os db schema name objType) = (d, Some e)"
    (is "fst ?P = _")
  shows "fst (ExportDDL os db schema name objType quiet ng og) = ([], Some e)"
proof -
  obtain ev0 where p: "?P = ((d, Some e), ev0)"
    using assms by (cases ?P) simp
  show ?thesis
    unfolding ExportDDL_def p by simp
qed

lemma ExportDDL_fragments:
  assumes "fst (if objType = typeTable \<or> objType = typeView \<or> objType = typeMaterializedView
            then exportTableView os db schema name objType quiet
            else ObjDDL os db schema name objType) = (d, None)"
    (is "fst ?P = _")
  shows "fst (ExportDDL os db schema name objType quiet ng og)
           = (joinStr
                ((if ng then [trimLine (fst (fst (ObjNeededPrivs os db schema name objType)))] else [])
                 @ [trimLine d]
                 @ (if og then [trimLine (fst (fst (ObjGrantedPrivs os db schema name objType)))] else []))
                (dblSpace os),
              if og then snd (fst (ObjGrantedPrivs os db schema name objType))
              else if ng then snd (fst (ObjNeededPrivs os db schema name objType))
              else None)"
proof -
  obtain ev0 where p: "?P = ((d, None), ev0)"
    using assms by (cases ?P) simp
  show ?thesis
    unfolding ExportDDL_def p
    by (cases ng; cases og)
       (simp_all add: Let_def appendLine_def split: prod.splits del: joinStr.simps)
qed

lemma trimLine_id: "s \<noteq> [] \<Longrightarrow> \<not> isWs (last s) \<Longrightarrow> trimLine s = s"
proof -
  assume a: "s \<noteq> []" "\<not> isWs (last s)"
  then obtain ys y where s: "s = ys @ [y]" by (cases s rule: rev_cases) auto
  with a have "\<not> y \<in> set whitespace" by (simp add: isWs_def)
  then show ?thesis by (simp add: trimLine_def strTrimRight_def s)
qed

lemma joinStr_append:
  "xs \<noteq> [] \<Longrightarrow> ys \<noteq> [] \<Longrightarrow> joinStr (xs @ ys) sep = joinStr xs sep @ sep @ joinStr ys sep"
proof (induction xs sep rule: joinStr.induct)
  case (2 x sep)
  then show ?case by (cases ys) auto
qed auto

lemma joinStr_last:
  "l \<noteq> [] \<Longrightarrow> last l \<noteq> [] \<Longrightarrow> joinStr l sep \<noteq> [] \<and> last (joinStr l sep) = last (last l)"
  by (induction l sep rule: joinStr.induct) auto

lemma joinStr_flat:
  assumes "inner \<noteq> []"
  shows "joinStr (pre @ [joinStr inner sep] @ post) sep = joinStr (pre @ inner @ post) sep"
proof -
  have a: "joinStr ([joinStr inner sep] @ post) sep = joinStr (inner @ post) sep"
    using assms by (cases "post = []") (simp_all add: joinStr_append joinStr_Cons)
  show ?thesis
  proof (cases "pre = []")
    case True
    with a show ?thesis by simp
  next
    case False
    then show ?thesis
      using a assms joinStr_append [of pre "[joinStr inner sep] @ post" sep]
        joinStr_append [of pre "inner @ post" sep]
      by simp
  qed
qed

lemma ObjTriggers_frags_cases:
  "f \<in> set (ObjTriggers_frags os found rslt) \<Longrightarrow>
     (\<exists>x. f = x @ newLine os @ ''/'') \<or> (\<exists>x. f = ''ALTER TRIGGER'' @ strTrimRight x blockEnd)"
  by (auto simp: ObjTriggers_frags_def Let_def split: if_splits)

lemma ObjTriggers_frags_good: "\<forall>f \<in> set (ObjTriggers_frags os found rslt). noTrailingWs f"
proof
  fix f assume "f \<in> set (ObjTriggers_frags os found rslt)"
  then consider x where "f = x @ newLine os @ ''/''"
    | x where "f = ''ALTER TRIGGER'' @ strTrimRight x blockEnd"
    using ObjTriggers_frags_cases by blast
  then show "noTrailingWs f"
  proof cases
    case 1
    then show ?thesis by (simp add: noTrailingWs_def isWs_def whitespace_def)
  next
    case 2
    have "last f \<notin> set blockEnd" unfolding 2 by (rule alter_fragment_last)
    moreover have "f \<noteq> []" unfolding 2 by simp
    ultimately show ?thesis by (auto simp: noTrailingWs_def isWs_def whitespace_def blockEnd_def)
  qed
qed

lemma ObjTriggers_rows_text:
  "\<forall>f \<in> set triggers. noTrailingWs f \<Longrightarrow>
     fst (fst (ObjTriggers_rows os quiet schema name rs triggers)) = []
     \<or> noTrailingWs (fst (fst (ObjTriggers_rows os quiet schema name rs triggers)))"
proof (induction os quiet schema name rs triggers rule: ObjTriggers_rows.induct)
  case (1 os quiet schema name triggers)
  show ?case
  proof (cases "triggers = []")
    case True
    then show ?thesis by simp
  next
    case False
    with 1 have "noTrailingWs (last triggers)" by simp
    with False joinStr_last [of triggers "dblSpace os"] show ?thesis
      by (simp add: noTrailingWs_def)
  qed
next
  case (2 os quiet schema name e rs triggers)
  then show ?case by simp
next
  case (3 os quiet schema name raw rs triggers)
  have "\<forall>f \<in> set (triggers @ ObjTriggers_frags os (snd (ObjTriggers_on schema (trimString raw)))
                        (fst (ObjTriggers_on schema (trimString raw)))). noTrailingWs f"
    using 3(2) ObjTriggers_frags_good by auto
  from 3(1) [OF refl refl this] show ?case
    by (simp add: Let_def case_prod_beta)
qed

lemma ObjTriggers_text:
  "fst (fst (ObjTriggers os db schema name objType quiet)) = []
   \<or> noTrailingWs (fst (fst (ObjTriggers os db schema name objType quiet)))"
proof (cases "db QObjTriggers [schema, name]")
  case (Inl e)
  then show ?thesis by (simp add: ObjTriggers_def)
next
  case (Inr rs)
  obtain r evs where rec: "ObjTriggers_rows os quiet schema name rs [] = (r, evs)"
    by (cases "ObjTriggers_rows os quiet schema name rs []")
  with ObjTriggers_rows_text [of "[]" os quiet schema name rs] show ?thesis
    by (simp add: ObjTriggers_def Inr)
qed

lemma alterSplit_not_Nil: "alterSplit s \<noteq> []"
  by (simp add: alterSplit.simps [of s] split: option.splits)

lemma length_alterFragments: "length (alterFragments ddl) = length (alterSplit ddl) - 1"
  by (simp add: alterFragments_def)

lemma trimLine_joinStr_last:
  assumes "noTrailingWs t"
  shows "trimLine (joinStr (l @ [t]) sep) = joinStr (l @ [t]) sep"
proof -
  from assms joinStr_last [of "l @ [t]" sep]
  have "joinStr (l @ [t]) sep \<noteq> []" "last (joinStr (l @ [t]) sep) = last t"
    by (simp_all add: noTrailingWs_def)
  with assms show ?thesis by (simp add: trimLine_id noTrailingWs_def)
qed

text \<open>
  C8. For a table whose object text and triggers were fetched without error and that has
  triggers, the assembled document is, joined by the blank-line separator and in this
  order: the needed grants (when requested), the \<^verbatim>\<open>CREATE\<close> statement, the index text,
  the sorted \<^verbatim>\<open>ALTER\<close> fragments, the comment of the object, the column comments, the
  trigger fragments, and the granted privileges (when requested).
\<close>

theorem ExportDDL_table_order:
  assumes "objType = typeTable"
    and "fst (ObjDDL os db schema name objType) = (ddl, None)"
    and "fst (ObjTriggers os db schema name objType quiet) = (trg, None)"
    and "trg \<noteq> []"
  shows "fst (fst (ExportDDL os db schema name objType quiet neededGrants objectGrants))
           = joinStr
               ((if neededGrants
                 then [trimLine (fst (fst (ObjNeededPrivs os db schema name objType)))] else [])
                @ [trimLine (hd (alterSplit ddl)),
                   trimLine (fst (fst (ObjIndices os db schema name objType)))]
                @ alterFragments ddl
                @ [trimLine (fst (fst (ObjComments os db schema name objType))),
                   trimLine (fst (fst (ColComments os db schema name objType))),
                   trg]
                @ (if objectGrants
                   then [trimLine (fst (fst (ObjGrantedPrivs os db schema name objType)))] else []))
               (dblSpace os)"
proof -
  let ?pre = "[trimLine (hd (alterSplit ddl)),
               trimLine (fst (fst (ObjIndices os db schema name objType)))]
              @ alterFragments ddl
              @ [trimLine (fst (fst (ObjComments os db schema name objType))),
                 trimLine (fst (fst (ColComments os db schema name objType)))]"
  have good: "noTrailingWs trg"
    using ObjTriggers_text [of os db schema name objType quiet] assms(3,4) by simp
  then have tt: "trimLine trg = trg"
    by (simp add: trimLine_id noTrailingWs_def)
  define D where "D = joinStr (?pre @ [trg]) (dblSpace os)"
  have tD: "trimLine D = D"
    unfolding D_def by (rule trimLine_joinStr_last [OF good])
  have "fst (exportTableView os db schema name objType quiet)
          = (joinStr (?pre @ [trimLine trg]) (dblSpace os), None)"
    using exportTableView_fragments [OF assms(2), of quiet] assms(1,3)
    by (simp del: joinStr.simps)
  then have inner: "fst (exportTableView os db schema name objType quiet) = (D, None)"
    by (simp only: tt D_def)
  then have "fst (if objType = typeTable \<or> objType = typeView \<or> objType = typeMaterializedView
            then exportTableView os db schema name objType quiet
            else ObjDDL os db schema name objType) = (D, None)"
    using assms(1) by simp
  from ExportDDL_fragments [OF this, of neededGrants objectGrants]
  have "fst (fst (ExportDDL os db schema name objType quiet neededGrants objectGrants))
          = joinStr
              ((if neededGrants
                then [trimLine (fst (fst (ObjNeededPrivs os db schema name objType)))] else [])
               @ [D]
               @ (if objectGrants
                  then [trimLine (fst (fst (ObjGrantedPrivs os db schema name objType)))] else []))
              (dblSpace os)"
    by (simp only: tD fst_conv)
  also have "\<dots> = joinStr
              ((if neededGrants
                then [trimLine (fst (fst (ObjNeededPrivs os db schema name objType)))] else [])
               @ (?pre @ [trg])
               @ (if objectGrants
                  then [trimLine (fst (fst (ObjGrantedPrivs os db schema name objType)))] else []))
              (dblSpace os)"
    unfolding D_def by (rule joinStr_flat) simp
  finally show ?thesis by (simp only: append_assoc append_Cons append_Nil)
qed

theorem ExportDDL_table_order_witness:
  "''TABLE'' = typeTable \<and>
   fst (ObjDDL Other db_table ''HR'' ''T'' ''TABLE'') = (tbl_ddl, None) \<and>
   fst (ObjTriggers Other db_table ''HR'' ''T'' ''TABLE'' False) = (trg_fixed, None) \<and>
   trg_fixed \<noteq> [] \<and>
   fst (fst (ExportDDL Other db_table ''HR'' ''T'' ''TABLE'' False True True))
     = joinStr [''GRANT N;'', ''CREATE TABLE T;'', ''CREATE INDEX I;'',
                ''ALTER TABLE T ADD B;'', ''ALTER TABLE T ADD Z;'', ''COMMENT ON TABLE T;'',
                ''COMMENT ON COLUMN A;'' @ [LF, LF] @ ''COMMENT ON COLUMN B;'',
                trg_fixed, ''GRANT G;''] [LF, LF]"
proof -
  have h1: "''TABLE'' = typeTable" by (simp add: typeTable_def)
  have h2: "fst (ObjDDL Other db_table ''HR'' ''T'' ''TABLE'') = (tbl_ddl, None)"
    by code_simp
  have h3: "fst (ObjTriggers Other db_table ''HR'' ''T'' ''TABLE'' False) = (trg_fixed, None)"
    by code_simp
  have h4: "trg_fixed \<noteq> []" by (simp add: trg_fixed_def)
  have e: "(if True
            then [trimLine (fst (fst (ObjNeededPrivs Other db_table ''HR'' ''T'' ''TABLE'')))] else [])
           @ [trimLine (hd (alterSplit tbl_ddl)),
              trimLine (fst (fst (ObjIndices Other db_table ''HR'' ''T'' ''TABLE'')))]
           @ alterFragments tbl_ddl
           @ [trimLine (fst (fst (ObjComments Other db_table ''HR'' ''T'' ''TABLE''))),
              trimLine (fst (fst (ColComments Other db_table ''HR'' ''T'' ''TABLE''))),
              trg_fixed]
           @ (if True
              then [trimLine (fst (fst (ObjGrantedPrivs Other db_table ''HR'' ''T'' ''TABLE'')))] else [])
         = [''GRANT N;'', ''CREATE TABLE T;'', ''CREATE INDEX I;'',
            ''ALTER TABLE T ADD B;'', ''ALTER TABLE T ADD Z;'', ''COMMENT ON TABLE T;'',
            ''COMMENT ON COLUMN A;'' @ [LF, LF] @ ''COMMENT ON COLUMN B;'',
            trg_fixed, ''GRANT G;'']"
    by code_simp
  have d: "dblSpace Other = [LF, LF]" by code_simp
  note w = ExportDDL_table_order [where objType = "''TABLE''" and os = Other and db = db_table
      and schema = "''HR''" and name = "''T''" and quiet = False and ddl = tbl_ddl
      and trg = trg_fixed and neededGrants = True and objectGrants = True, OF h1 h2 h3 h4]
  from w have c: "fst (fst (ExportDDL Other db_table ''HR'' ''T'' ''TABLE'' False True True))
     = joinStr [''GRANT N;'', ''CREATE TABLE T;'', ''CREATE INDEX I;'',
                ''ALTER TABLE T ADD B;'', ''ALTER TABLE T ADD Z;'', ''COMMENT ON TABLE T;'',
                ''COMMENT ON COLUMN A;'' @ [LF, LF] @ ''COMMENT ON COLUMN B;'',
                trg_fixed, ''GRANT G;''] [LF, LF]"
    unfolding e d .
  show ?thesis
    by (intro conjI; fact)
qed

section \<open>Empty fragments\<close>

text \<open>
  C6, as the source has it. The claim drops empty fragments before joining; the source
  appends every fragment and joins them all. Here the table has no index, so the index
  fragment is empty, and two separators stand between the \<^verbatim>\<open>CREATE\<close> statement and the
  comment.
\<close>

theorem ExportDDL_empty_fragment_kept:
  "fst (ExportDDL Other db_noidx ''HR'' ''T'' ''TABLE'' False False False)
     = (''CREATE TABLE T;'' @ [LF, LF] @ [LF, LF] @ ''COMMENT ON TABLE T;'', None) \<and>
   fst (fst (ExportDDL Other db_noidx ''HR'' ''T'' ''TABLE'' False False False))
     \<noteq> joinStr [''CREATE TABLE T;'', ''COMMENT ON TABLE T;''] (dblSpace Other)"
  by code_simp

text \<open>
  C6, amended. When the object text was fetched, the document of \<^verbatim>\<open>exportTableView\<close> is
  all its fragments joined by the blank-line separator, one fragment for the
  \<^verbatim>\<open>CREATE\<close> statement, one for each \<^verbatim>\<open>ALTER\<close> piece and one for every facet (index for
  tables and materialized views, comment, column comments, triggers), empty or not: their
  number does not depend on what the facets returned. So for a table whose index
  fragment is empty two separators follow the \<^verbatim>\<open>CREATE\<close> statement. \<^verbatim>\<open>ExportDDL\<close> joins
  in the same way the needed grants (when requested), the document without its trailing
  white space, and the granted privileges (when requested).
\<close>

theorem assembly_keeps_empty_fragments:
  assumes "fst (ObjDDL os db schema name objType) = (ddl, None)"
  shows "(let l = [trimLine (hd (alterSplit ddl))]
                  @ (if objType = typeTable \<or> objType = typeMaterializedView
                     then [trimLine (fst (fst (ObjIndices os db schema name objType)))] else [])
                  @ alterFragments ddl
                  @ [trimLine (fst (fst (ObjComments os db schema name objType))),
                     trimLine (fst (fst (ColComments os db schema name objType))),
                     trimLine (fst (fst (ObjTriggers os db schema name objType quiet)))]
          in fst (fst (exportTableView os db schema name objType quiet)) = joinStr l (dblSpace os)
             \<and> length l = length (alterSplit ddl)
                  + (if objType = typeTable \<or> objType = typeMaterializedView then 4 else 3)) \<and>
         (objType = typeTable \<and> trimLine (fst (fst (ObjIndices os db schema name objType))) = []
            \<longrightarrow> fst (fst (exportTableView os db schema name objType quiet))
                  = trimLine (hd (alterSplit ddl)) @ dblSpace os @ dblSpace os
                    @ joinStr
                        (alterFragments ddl
                         @ [trimLine (fst (fst (ObjComments os db schema name objType))),
                            trimLine (fst (fst (ColComments os db schema name objType))),
                            trimLine (fst (fst (ObjTriggers os db schema name objType quiet)))])
                        (dblSpace os)) \<and>
         (fst (if objType = typeTable \<or> objType = typeView \<or> objType = typeMaterializedView
               then exportTableView os db schema name objType quiet
               else ObjDDL os db schema name objType) = (d, None)
            \<longrightarrow> fst (fst (ExportDDL os db schema name objType quiet neededGrants objectGrants))
                  = joinStr
                      ((if neededGrants
                        then [trimLine (fst (fst (ObjNeededPrivs os db schema name objType)))]
                        else [])
                       @ [trimLine d]
                       @ (if objectGrants
                          then [trimLine (fst (fst (ObjGrantedPrivs os db schema name objType)))]
                          else []))
                      (dblSpace os))"
proof (intro conjI impI)
  have len: "length (alterSplit ddl) \<noteq> 0"
    using alterSplit_not_Nil [of ddl] by simp
  show "let l = [trimLine (hd (alterSplit ddl))]
                  @ (if objType = typeTable \<or> objType = typeMaterializedView
                     then [trimLine (fst (fst (ObjIndices os db schema name objType)))] else [])
                  @ alterFragments ddl
                  @ [trimLine (fst (fst (ObjComments os db schema name objType))),
                     trimLine (fst (fst (ColComments os db schema name objType))),
                     trimLine (fst (fst (ObjTriggers os db schema name objType quiet)))]
          in fst (fst (exportTableView os db schema name objType quiet)) = joinStr l (dblSpace os)
             \<and> length l = length (alterSplit ddl)
                  + (if objType = typeTable \<or> objType = typeMaterializedView then 4 else 3)"
    unfolding Let_def
    using exportTableView_fragments [OF assms, of quiet] len
    by (simp add: length_alterFragments del: joinStr.simps)
next
  assume a: "objType = typeTable \<and> trimLine (fst (fst (ObjIndices os db schema name objType))) = []"
  let ?rest = "alterFragments ddl
                 @ [trimLine (fst (fst (ObjComments os db schema name objType))),
                    trimLine (fst (fst (ColComments os db schema name objType))),
                    trimLine (fst (fst (ObjTriggers os db schema name objType quiet)))]"
  have "fst (fst (exportTableView os db schema name objType quiet))
          = joinStr ([trimLine (hd (alterSplit ddl)), []] @ ?rest) (dblSpace os)"
    using exportTableView_fragments [OF assms, of quiet] a by (clarsimp simp del: joinStr.simps)
  also have "\<dots> = joinStr [trimLine (hd (alterSplit ddl)), []] (dblSpace os) @ dblSpace os
                    @ joinStr ?rest (dblSpace os)"
    by (rule joinStr_append) simp_all
  finally show "fst (fst (exportTableView os db schema name objType quiet))
                  = trimLine (hd (alterSplit ddl)) @ dblSpace os @ dblSpace os
                    @ joinStr ?rest (dblSpace os)"
    by simp
next
  assume "fst (if objType = typeTable \<or> objType = typeView \<or> objType = typeMaterializedView
               then exportTableView os db schema name objType quiet
               else ObjDDL os db schema name objType) = (d, None)"
  from ExportDDL_fragments [OF this, of neededGrants objectGrants]
  show "fst (fst (ExportDDL os db schema name objType quiet neededGrants objectGrants))
                  = joinStr
                      ((if neededGrants
                        then [trimLine (fst (fst (ObjNeededPrivs os db schema name objType)))]
                        else [])
                       @ [trimLine d]
                       @ (if objectGrants
                          then [trimLine (fst (fst (ObjGrantedPrivs os db schema name objType)))]
                          else []))
                      (dblSpace os)"
    by (simp only: fst_conv)
qed

theorem assembly_keeps_empty_fragments_witness:
  "fst (ObjDDL Other db_noidx ''HR'' ''T'' ''TABLE'') = (''CREATE TABLE T;'', None) \<and>
   ''TABLE'' = typeTable \<and>
   trimLine (fst (fst (ObjIndices Other db_noidx ''HR'' ''T'' ''TABLE''))) = [] \<and>
   fst (fst (exportTableView Other db_noidx ''HR'' ''T'' ''TABLE'' False))
     = ''CREATE TABLE T;'' @ [LF, LF] @ [LF, LF] @ ''COMMENT ON TABLE T;'' @ [LF, LF] @ [LF, LF] \<and>
   fst (if ''TABLE'' = typeTable \<or> ''TABLE'' = typeView \<or> ''TABLE'' = typeMaterializedView
        then exportTableView Other db_noidx ''HR'' ''T'' ''TABLE'' False
        else ObjDDL Other db_noidx ''HR'' ''T'' ''TABLE'')
     = (''CREATE TABLE T;'' @ [LF, LF] @ [LF, LF] @ ''COMMENT ON TABLE T;'' @ [LF, LF] @ [LF, LF],
        None) \<and>
   fst (fst (ExportDDL Other db_noidx ''HR'' ''T'' ''TABLE'' False True False))
     = [LF, LF] @ ''CREATE TABLE T;'' @ [LF, LF] @ [LF, LF] @ ''COMMENT ON TABLE T;''"
proof -
  have h1: "fst (ObjDDL Other db_noidx ''HR'' ''T'' ''TABLE'') = (''CREATE TABLE T;'', None)"
    by code_simp
  have h2: "''TABLE'' = typeTable"
    by (simp add: typeTable_def)
  have h3: "trimLine (fst (fst (ObjIndices Other db_noidx ''HR'' ''T'' ''TABLE''))) = []"
    by code_simp
  have h4: "fst (if ''TABLE'' = typeTable \<or> ''TABLE'' = typeView \<or> ''TABLE'' = typeMaterializedView
        then exportTableView Other db_noidx ''HR'' ''T'' ''TABLE'' False
        else ObjDDL Other db_noidx ''HR'' ''T'' ''TABLE'')
     = (''CREATE TABLE T;'' @ [LF, LF] @ [LF, LF] @ ''COMMENT ON TABLE T;'' @ [LF, LF] @ [LF, LF],
        None)"
    by code_simp
  have e: "trimLine (hd (alterSplit ''CREATE TABLE T;'')) @ dblSpace Other @ dblSpace Other
             @ joinStr
                 (alterFragments ''CREATE TABLE T;''
                  @ [trimLine (fst (fst (ObjComments Other db_noidx ''HR'' ''T'' ''TABLE''))),
                     trimLine (fst (fst (ColComments Other db_noidx ''HR'' ''T'' ''TABLE''))),
                     trimLine (fst (fst (ObjTriggers Other db_noidx ''HR'' ''T'' ''TABLE'' False)))])
                 (dblSpace Other)
           = ''CREATE TABLE T;'' @ [LF, LF] @ [LF, LF] @ ''COMMENT ON TABLE T;'' @ [LF, LF] @ [LF, LF]"
    by code_simp
  have g: "joinStr
             ((if True
               then [trimLine (fst (fst (ObjNeededPrivs Other db_noidx ''HR'' ''T'' ''TABLE'')))]
               else [])
              @ [trimLine (''CREATE TABLE T;'' @ [LF, LF] @ [LF, LF] @ ''COMMENT ON TABLE T;''
                           @ [LF, LF] @ [LF, LF])]
              @ (if False
                 then [trimLine (fst (fst (ObjGrantedPrivs Other db_noidx ''HR'' ''T'' ''TABLE'')))]
                 else []))
             (dblSpace Other)
           = [LF, LF] @ ''CREATE TABLE T;'' @ [LF, LF] @ [LF, LF] @ ''COMMENT ON TABLE T;''"
    by code_simp
  note w = assembly_keeps_empty_fragments [where os = Other and db = db_noidx
      and schema = "''HR''" and name = "''T''" and objType = "''TABLE''"
      and ddl = "''CREATE TABLE T;''" and quiet = False and neededGrants = True
      and objectGrants = False
      and d = "''CREATE TABLE T;'' @ [LF, LF] @ [LF, LF] @ ''COMMENT ON TABLE T;''
                 @ [LF, LF] @ [LF, LF]", OF h1]
  from w h2 h3 have "fst (fst (exportTableView Other db_noidx ''HR'' ''T'' ''TABLE'' False))
     = trimLine (hd (alterSplit ''CREATE TABLE T;'')) @ dblSpace Other @ dblSpace Other
             @ joinStr
                 (alterFragments ''CREATE TABLE T;''
                  @ [trimLine (fst (fst (ObjComments Other db_noidx ''HR'' ''T'' ''TABLE''))),
                     trimLine (fst (fst (ColComments Other db_noidx ''HR'' ''T'' ''TABLE''))),
                     trimLine (fst (fst (ObjTriggers Other db_noidx ''HR'' ''T'' ''TABLE'' False)))])
                 (dblSpace Other)"
    by blast
  then have c: "fst (fst (exportTableView Other db_noidx ''HR'' ''T'' ''TABLE'' False))
     = ''CREATE TABLE T;'' @ [LF, LF] @ [LF, LF] @ ''COMMENT ON TABLE T;'' @ [LF, LF] @ [LF, LF]"
    unfolding e .
  from w h4 have "fst (fst (ExportDDL Other db_noidx ''HR'' ''T'' ''TABLE'' False True False))
     = joinStr
             ((if True
               then [trimLine (fst (fst (ObjNeededPrivs Other db_noidx ''HR'' ''T'' ''TABLE'')))]
               else [])
              @ [trimLine (''CREATE TABLE T;'' @ [LF, LF] @ [LF, LF] @ ''COMMENT ON TABLE T;''
                           @ [LF, LF] @ [LF, LF])]
              @ (if False
                 then [trimLine (fst (fst (ObjGrantedPrivs Other db_noidx ''HR'' ''T'' ''TABLE'')))]
                 else []))
             (dblSpace Other)"
    by blast
  then have c': "fst (fst (ExportDDL Other db_noidx ''HR'' ''T'' ''TABLE'' False True False))
     = [LF, LF] @ ''CREATE TABLE T;'' @ [LF, LF] @ [LF, LF] @ ''COMMENT ON TABLE T;''"
    unfolding g .
  show ?thesis
    by (intro conjI; fact)
qed

section \<open>Failing fetches\<close>

lemma ObjTriggers_query_failed:
  "db QObjTriggers [schema, name] = Inl e \<Longrightarrow>
     ObjTriggers os db schema name objType quiet
       = (([], Some e), [Queried QObjTriggers [schema, name]])"
  by (simp add: ObjTriggers_def)

lemma ExportDDL_trigger_failure:
  assumes "objType = typeTable \<or> objType = typeView \<or> objType = typeMaterializedView"
    and "fst (ObjDDL os db schema name objType) = (ddl, None)"
    and "db QObjTriggers [schema, name] = Inl e"
  shows "fst (ExportDDL os db schema name objType quiet neededGrants objectGrants) = ([], Some e)"
proof -
  have "snd (fst (exportTableView os db schema name objType quiet)) = Some e"
    using exportTableView_fragments [OF assms(2), of quiet]
      ObjTriggers_query_failed [of db schema name e os objType quiet] assms(3)
    by simp
  then have "fst (if objType = typeTable \<or> objType = typeView \<or> objType = typeMaterializedView
            then exportTableView os db schema name objType quiet
            else ObjDDL os db schema name objType)
         = (fst (fst (exportTableView os db schema name objType quiet)), Some e)"
    using assms(1) by (simp add: prod_eq_iff)
  then show ?thesis by (rule ExportDDL_failed)
qed

text \<open>
  C1, as the source has it. \<^verbatim>\<open>exportTableView\<close> and \<^verbatim>\<open>ExportDDL\<close> return the error
  variable as it stands after the last fetch. For the table of the examples: a failing
  trigger query is logged, and then the assembly returns the empty text and that error; a
  failing query for the granted privileges is returned as the error of the assembly; a
  failing index query is logged and the assembly returns no error.
\<close>

theorem ExportDDL_trigger_failure_aborts:
  "ExportDDL Other db_trgfail ''HR'' ''T'' ''TABLE'' False False False
     = (([], Some (DataAccessError ''ORA-00942'')),
        [Queried QObjDDL [''TABLE'', ''T'', ''HR''], Queried QObjIndices [''HR'', ''T''],
         Queried QTableComments [''HR'', ''T''], Queried QColComments [''HR'', ''T''],
         Queried QObjTriggers [''HR'', ''T''], Logged (DataAccessError ''ORA-00942'')]) \<and>
   snd (fst (ExportDDL Other db_grantfail ''HR'' ''T'' ''TABLE'' False False True))
     = Some (DataAccessError ''ORA-00942'') \<and>
   snd (fst (ExportDDL Other db_idxfail ''HR'' ''T'' ''TABLE'' False False False)) = None"
  by code_simp

section \<open>Assembly without grants\<close>

lemma queriesOf_append [simp]: "queriesOf (a @ b) = queriesOf a @ queriesOf b"
  by (simp add: queriesOf_def)

lemma queriesOf_Cons [simp]:
  "queriesOf (Queried q a # evs) = q # queriesOf evs" "queriesOf (Logged e # evs) = queriesOf evs"
  "queriesOf [] = []"
  by (simp_all add: queriesOf_def)

lemma queriesOf_carp [simp]: "queriesOf (carp quiet err) = []"
  by (simp add: carp_def split: option.splits)

lemma queriesOf_runQuery [simp]: "queriesOf (snd (runQuery os db q schema name)) = [q]"
  by (simp add: runQuery_def split: sum.splits)

lemma queriesOf_ObjDDL [simp]: "queriesOf (snd (ObjDDL os db schema name objType)) = [QObjDDL]"
  by (simp add: ObjDDL_def Let_def split: sum.splits list.splits)

lemma queriesOf_ObjTriggers_rows [simp]:
  "queriesOf (snd (ObjTriggers_rows os quiet schema name rs triggers)) = []"
proof (induction os quiet schema name rs triggers rule: ObjTriggers_rows.induct)
  case (3 os quiet schema name raw rs triggers)
  let ?fx = "ObjTriggers_on schema (trimString raw)"
  obtain r evs where rec: "ObjTriggers_rows os quiet schema name rs
      (triggers @ ObjTriggers_frags os (snd ?fx) (fst ?fx)) = (r, evs)"
    by (cases "ObjTriggers_rows os quiet schema name rs
      (triggers @ ObjTriggers_frags os (snd ?fx) (fst ?fx))")
  from 3 [OF refl refl] rec have "queriesOf evs = []" by simp
  then show ?case by (simp add: Let_def rec)
qed simp_all

lemma queriesOf_ObjTriggers [simp]:
  "queriesOf (snd (ObjTriggers os db schema name objType quiet)) = [QObjTriggers]"
  by (simp add: ObjTriggers_def case_prod_beta split: sum.splits)

lemma queriesOf_exportTableView:
  "set (queriesOf (snd (exportTableView os db schema name objType quiet)))
     \<subseteq> {QObjDDL, QObjIndices, QTableComments, QMViewComments, QColComments, QObjTriggers}"
proof (cases "ObjDDL os db schema name objType")
  case (Pair r ev0)
  obtain d err where r: "r = (d, err)" by (cases r)
  have ev0: "queriesOf ev0 = [QObjDDL]"
    using queriesOf_ObjDDL [of os db schema name objType] Pair by simp
  show ?thesis
  proof (cases err)
    case None
    show ?thesis
      unfolding exportTableView_def Pair r None
      by (simp add: Let_def ev0 ObjIndices_def ObjComments_def MViewComments_def
          TableComments_def ColComments_def case_prod_beta)
  next
    case (Some e)
    show ?thesis
      unfolding exportTableView_def Pair r Some by (simp add: ev0)
  qed
qed

lemma runQuery_without_grants:
  "q \<noteq> QObjNeededPrivs \<Longrightarrow> q \<noteq> QObjGrantedPrivs \<Longrightarrow>
     runQuery os (db(QObjNeededPrivs := f, QObjGrantedPrivs := g)) q schema name
       = runQuery os db q schema name"
  by (simp add: runQuery_def)

lemma ObjDDL_without_grants:
  "ObjDDL os (db(QObjNeededPrivs := f, QObjGrantedPrivs := g)) schema name objType
     = ObjDDL os db schema name objType"
  by (simp add: ObjDDL_def)

lemma ObjTriggers_without_grants:
  "ObjTriggers os (db(QObjNeededPrivs := f, QObjGrantedPrivs := g)) schema name objType quiet
     = ObjTriggers os db schema name objType quiet"
  by (simp add: ObjTriggers_def)

lemma ObjIndices_without_grants:
  "ObjIndices os (db(QObjNeededPrivs := f, QObjGrantedPrivs := g)) schema name objType
     = ObjIndices os db schema name objType"
  by (simp add: ObjIndices_def runQuery_without_grants)

lemma ObjComments_without_grants:
  "ObjComments os (db(QObjNeededPrivs := f, QObjGrantedPrivs := g)) schema name objType
     = ObjComments os db schema name objType"
  by (simp add: ObjComments_def MViewComments_def TableComments_def runQuery_without_grants)

lemma ColComments_without_grants:
  "ColComments os (db(QObjNeededPrivs := f, QObjGrantedPrivs := g)) schema name objType
     = ColComments os db schema name objType"
  by (simp add: ColComments_def runQuery_without_grants)

lemma exportTableView_without_grants:
  "exportTableView os (db(QObjNeededPrivs := f, QObjGrantedPrivs := g)) schema name objType quiet
     = exportTableView os db schema name objType quiet"
  unfolding exportTableView_def ObjDDL_without_grants ObjTriggers_without_grants
    ObjIndices_without_grants ObjComments_without_grants ColComments_without_grants
  by (rule refl)

text \<open>
  C7. With both grant flags off, the result of \<^verbatim>\<open>ExportDDL\<close> (text, error and events) is
  the same whatever the two privilege queries would answer; neither privilege query is
  among the queries sent; and the text is the document of the object without its trailing
  white space, with no fragment in front of it or after it.
\<close>

theorem ExportDDL_without_grants:
  "ExportDDL os (db(QObjNeededPrivs := f, QObjGrantedPrivs := g)) schema name objType quiet
       False False
     = ExportDDL os db schema name objType quiet False False \<and>
   QObjNeededPrivs \<notin> set (queriesOf (snd (ExportDDL os db schema name objType quiet False False))) \<and>
   QObjGrantedPrivs \<notin> set (queriesOf (snd (ExportDDL os db schema name objType quiet False False))) \<and>
   fst (ExportDDL os db schema name objType quiet False False)
     = (case fst (if objType = typeTable \<or> objType = typeView \<or> objType = typeMaterializedView
                  then exportTableView os db schema name objType quiet
                  else ObjDDL os db schema name objType) of
          (d, None) \<Rightarrow> (trimLine d, None)
        | (d, Some e) \<Rightarrow> ([], Some e))"
proof -
  let ?P = "if objType = typeTable \<or> objType = typeView \<or> objType = typeMaterializedView
            then exportTableView os db schema name objType quiet
            else ObjDDL os db schema name objType"
  have same: "ExportDDL os (db(QObjNeededPrivs := f, QObjGrantedPrivs := g)) schema name objType
                  quiet False False
                = ExportDDL os db schema name objType quiet False False"
    unfolding ExportDDL_def exportTableView_without_grants ObjDDL_without_grants by simp
  obtain d err ev0 where p: "?P = ((d, err), ev0)"
    by (cases ?P) auto
  have ev: "snd (ExportDDL os db schema name objType quiet False False) = ev0"
    unfolding ExportDDL_def p by (cases err) (simp_all add: Let_def)
  have "set (queriesOf (snd ?P))
          \<subseteq> {QObjDDL, QObjIndices, QTableComments, QMViewComments, QColComments, QObjTriggers}"
    using queriesOf_exportTableView [of os db schema name objType quiet]
    by (simp split: if_splits)
  with p have q: "set (queriesOf ev0)
          \<subseteq> {QObjDDL, QObjIndices, QTableComments, QMViewComments, QColComments, QObjTriggers}"
    by simp
  have out: "fst (ExportDDL os db schema name objType quiet False False)
     = (case fst ?P of (d, None) \<Rightarrow> (trimLine d, None) | (d, Some e) \<Rightarrow> ([], Some e))"
    unfolding ExportDDL_def p by (cases err) (simp_all add: Let_def appendLine_def)
  from q have "QObjNeededPrivs \<notin> set (queriesOf ev0)" "QObjGrantedPrivs \<notin> set (queriesOf ev0)"
    by auto
  with same out show ?thesis
    unfolding ev by blast
qed

theorem ExportDDL_without_grants_witness:
  "ExportDDL Other db_table_other_grants ''HR'' ''T'' ''TABLE'' False False False
     = ExportDDL Other db_table ''HR'' ''T'' ''TABLE'' False False False \<and>
   queriesOf (snd (ExportDDL Other db_table ''HR'' ''T'' ''TABLE'' False False False))
     = [QObjDDL, QObjIndices, QTableComments, QColComments, QObjTriggers]"
proof -
  have "queriesOf (snd (ExportDDL Other db_table ''HR'' ''T'' ''TABLE'' False False False))
     = [QObjDDL, QObjIndices, QTableComments, QColComments, QObjTriggers]"
    by code_simp
  then show ?thesis
    using ExportDDL_without_grants [of Other db_table
        "\<lambda>args. Inl (DataAccessError ''ORA-00942'')"
        "\<lambda>args. Inr [Inr ''GRANT ALL ON T TO PUBLIC ;'']" "''HR''" "''T''" "''TABLE''" False]
    unfolding db_table_other_grants_def by blast
qed

section \<open>The schemas to extract\<close>

lemma getSchemaList_rows_subset:
  "set (fst (fst (getSchemaList_rows schemas xclude quiet included excluded rs l err)))
     \<subseteq> set l \<union> {x. Inr x \<in> set rs}"
proof (induction schemas xclude quiet included excluded rs l err rule: getSchemaList_rows.induct)
  case (1 schemas xclude quiet included excluded l err)
  show ?case by simp
next
  case (2 schemas xclude quiet included excluded e rs l err)
  then show ?case by (auto simp: case_prod_beta)
next
  case (3 schemas xclude quiet included excluded schema rs l err)
  then show ?case by (auto split: if_splits)
qed

lemma getSchemaList_rows_all:
  "fst (fst (getSchemaList_rows [] [] quiet included excluded rs l err))
     = l @ concat (map (\<lambda>r. case r of Inl e \<Rightarrow> [] | Inr x \<Rightarrow> [x]) rs)"
proof (induction "[] :: string" "[] :: string" quiet included excluded rs l err
    rule: getSchemaList_rows.induct)
  case (1 quiet included excluded l err)
  show ?case by simp
next
  case (2 quiet included excluded e rs l err)
  then show ?case by (simp add: case_prod_beta)
next
  case (3 quiet included excluded schema rs l err)
  then show ?case by simp
qed

lemma schemaListQuery_not_internal: "set (schemaListQuery objs) \<inter> set internalSchemas = {}"
  by (auto simp: schemaListQuery_def)

text \<open>
  C9. Whatever the catalogue, the allow-list and the deny-list are, the list of schemas
  that \<^verbatim>\<open>getSchemaList\<close> returns holds none of the fixed vendor-internal schema names,
  also when the allow-list names one; and it holds only schemas that the call without
  any list returns: a list narrows the result and never widens it.
\<close>

theorem getSchemaList_excludes_internal:
  "set (fst (fst (getSchemaList db schemas xclude quiet))) \<inter> set internalSchemas = {} \<and>
   set (fst (fst (getSchemaList db schemas xclude quiet)))
     \<subseteq> set (fst (fst (getSchemaList db [] [] quiet)))"
proof (cases "dba_objects db")
  case (Inl e)
  then show ?thesis by (simp add: getSchemaList_def)
next
  case (Inr objs)
  let ?rows = "map (\<lambda>x. case scan_error db x of None \<Rightarrow> Inr x | Some e \<Rightarrow> Inl e)
                 (schemaListQuery objs)"
  have rows: "{x. Inr x \<in> set ?rows} \<subseteq> set (schemaListQuery objs)"
    by (auto split: option.splits)
  have res: "fst (fst (getSchemaList db s x quiet))
               = fst (fst (getSchemaList_rows s x quiet (csvSplit s) (csvSplit x) ?rows [] None))"
    for s x
    by (simp add: getSchemaList_def Inr Let_def case_prod_beta)
  have sub: "set (fst (fst (getSchemaList db schemas xclude quiet))) \<subseteq> {x. Inr x \<in> set ?rows}"
    unfolding res
    using getSchemaList_rows_subset [of schemas xclude quiet "csvSplit schemas" "csvSplit xclude"
        ?rows "[]" None]
    by simp
  have all: "set (fst (fst (getSchemaList db [] [] quiet))) = {x. Inr x \<in> set ?rows}"
    unfolding res getSchemaList_rows_all
    by (auto split: sum.splits option.splits)
  from sub rows schemaListQuery_not_internal [of objs] all show ?thesis
    by blast
qed

theorem getSchemaList_excludes_internal_witness:
  "fst (getSchemaList cat_example ''SYS,HR'' '''' False) = ([''HR''], None) \<and>
   fst (getSchemaList cat_example '''' '''' False) = ([''HR'', ''OE''], None) \<and>
   ''SYS'' \<in> set internalSchemas \<and>
   set (fst (fst (getSchemaList cat_example ''SYS,HR'' '''' False))) \<inter> set internalSchemas = {}"
proof -
  have a: "fst (getSchemaList cat_example ''SYS,HR'' '''' False) = ([''HR''], None)"
    by code_simp
  have b: "fst (getSchemaList cat_example '''' '''' False) = ([''HR'', ''OE''], None)"
    by code_simp
  have c: "''SYS'' \<in> set internalSchemas"
    by code_simp
  from getSchemaList_excludes_internal [of cat_example "''SYS,HR''" "''''" False]
  have d: "set (fst (fst (getSchemaList cat_example ''SYS,HR'' '''' False))) \<inter> set internalSchemas = {}"
    by (rule conjunct1)
  show ?thesis
    by (intro conjI; fact)
qed

section \<open>The order of the ALTER fragments\<close>

lemma trimmedRight_strTrimRight: "trimmedRight (strTrimRight s whitespace)"
  using strTrimRight_last [of s whitespace] by (auto simp: trimmedRight_def isWs_def)

lemma trimmedRight_trimString: "trimmedRight (trimString raw)"
  by (simp add: trimString_def strTrim_def trimmedRight_strTrimRight)

lemma trimmedRight_ObjDDL_view: "trimmedRight d \<Longrightarrow> trimmedRight (ObjDDL_view os d)"
proof (cases "reMatches reDashes (last (splitLines d))")
  case True
  then have "ObjDDL_view os d = (joinStr (splitLines d) (newLine os) @ newLine os) @ '';''"
    by (simp add: ObjDDL_view_added(1))
  then show ?thesis
    by (simp add: trimmedRight_def isWs_def whitespace_def)
next
  case False
  assume "trimmedRight d"
  with False show ?thesis by (simp add: ObjDDL_view_def Let_def)
qed

lemma hasPrefix_decomp: "hasPrefix s p \<Longrightarrow> s = p @ drop (length p) s"
  unfolding hasPrefix_def by (metis append_take_drop_id)

lemma reSlash_shape: "reSlash t = Some r \<Longrightarrow> \<exists>m. t = m @ r \<and> m \<noteq> [] \<and> last m = LF"
proof -
  assume a: "reSlash t = Some r"
  let ?d = "dropWhile isWs t"
  from a have h: "hasPrefix ?d [CHR ''/'', LF]" and r: "r = drop 2 ?d"
    by (auto simp: reSlash_def Let_def split: if_splits)
  from hasPrefix_decomp [OF h] r have "?d = [CHR ''/'', LF] @ r"
    by (simp add: eval_nat_numeral)
  moreover have "t = takeWhile isWs t @ ?d" by simp
  ultimately have "t = (takeWhile isWs t @ [CHR ''/'', LF]) @ r"
    by (simp only: append_assoc)
  then show ?thesis by (intro exI [of _ "takeWhile isWs t @ [CHR ''/'', LF]"]) simp
qed

lemma slashReplace_Nil_iff: "slashReplace s = [] \<longleftrightarrow> s = []"
  by (auto simp: slashReplace.simps [of s] slashReplace.simps [of "[]"] reSlash_def Let_def
      split: option.splits)

lemma trimmedRight_slashReplace: "trimmedRight s \<Longrightarrow> trimmedRight (slashReplace s)"
proof (induction s rule: slashReplace.induct)
  case (1 s)
  show ?case
  proof (cases "reFind reSlash s")
    case None
    with 1(2) show ?thesis by (simp add: slashReplace.simps [of s])
  next
    case (Some pr)
    obtain p r where pr: "pr = (p, r)" by (cases pr)
    from reFind_decomp [of reSlash s p r] Some pr obtain t where t: "s = p @ t" "reSlash t = Some r"
      by auto
    from reSlash_shape [OF t(2)] obtain m where m: "t = m @ r" "m \<noteq> []" "last m = LF"
      by blast
    have r_ne: "r \<noteq> []"
    proof
      assume "r = []"
      with t m have "s \<noteq> []" "last s = LF" by simp_all
      with 1(2) show False by (simp add: trimmedRight_def isWs_def whitespace_def)
    qed
    with t m 1(2) have "trimmedRight r" by (simp add: trimmedRight_def)
    from 1(1) [OF Some pr [symmetric] this] have ih: "trimmedRight (slashReplace r)" .
    have "slashReplace s = p @ [LF, CHR ''/'', LF] @ slashReplace r"
      using Some pr by (simp add: slashReplace.simps [of s])
    with ih r_ne show ?thesis
      by (simp add: trimmedRight_def slashReplace_Nil_iff)
  qed
qed

lemma trimmedRight_ObjDDL: "trimmedRight (fst (fst (ObjDDL os db schema name objType)))"
proof -
  have e: "trimmedRight []" by (simp add: trimmedRight_def)
  have v: "trimmedRight (ObjDDL_view os (trimString raw))" for raw
    by (rule trimmedRight_ObjDDL_view) (rule trimmedRight_trimString)
  have s: "trimmedRight (slashReplace (trimString raw))" for raw
    by (rule trimmedRight_slashReplace) (rule trimmedRight_trimString)
  show ?thesis
    by (simp add: ObjDDL_def Let_def e v s split: sum.splits list.splits)
qed

lemma reAlter_shape: "reAlter t = Some r \<Longrightarrow> \<exists>m. t = m @ r \<and> m \<noteq> [] \<and> last m = SPC"
proof -
  assume a: "reAlter t = Some r"
  let ?d = "dropWhile isWs t"
  from a have h: "hasPrefix ?d ''ALTER ''" and r: "r = drop 6 ?d"
    by (auto simp: reAlter_def Let_def split: if_splits)
  from hasPrefix_decomp [OF h] r have "?d = ''ALTER '' @ r"
    by (simp add: eval_nat_numeral)
  moreover have "t = takeWhile isWs t @ ?d" by simp
  ultimately have "t = (takeWhile isWs t @ ''ALTER '') @ r"
    by (simp only: append_assoc)
  then show ?thesis by (intro exI [of _ "takeWhile isWs t @ ''ALTER ''"]) simp
qed

lemma reAlter_skip: "isWs c \<Longrightarrow> reAlter (c # cs) = reAlter cs"
  by (simp add: reAlter_def)

lemma reFind_reAlter_before: "reFind reAlter s = Some (p, r) \<Longrightarrow> trimmedRight p"
proof (induction s arbitrary: p)
  case Nil
  then show ?case by (auto simp: trimmedRight_def split: option.splits)
next
  case (Cons c cs)
  show ?case
  proof (cases "reAlter (c # cs)")
    case (Some r')
    with Cons.prems show ?thesis by (simp add: trimmedRight_def)
  next
    case None
    with Cons.prems obtain p' where p': "reFind reAlter cs = Some (p', r)" "p = c # p'"
      by (auto split: option.splits)
    show ?thesis
    proof (cases "p' = []")
      case True
      with reFind_decomp [OF p'(1)] have "reAlter cs = Some r" by simp
      with None reAlter_skip [of c cs] have "\<not> isWs c" by auto
      with True p'(2) show ?thesis by (simp add: trimmedRight_def)
    next
      case False
      with Cons.IH [OF p'(1)] p'(2) show ?thesis by (simp add: trimmedRight_def)
    qed
  qed
qed

lemma trimmedRight_alterSplit:
  "trimmedRight s \<Longrightarrow> \<forall>p \<in> set (alterSplit s). trimmedRight p"
proof (induction s rule: alterSplit.induct)
  case (1 s)
  show ?case
  proof (cases "reFind reAlter s")
    case None
    with 1(2) show ?thesis by (simp add: alterSplit.simps [of s])
  next
    case (Some pr)
    obtain p r where pr: "pr = (p, r)" by (cases pr)
    from reFind_decomp [of reAlter s p r] Some pr obtain t where t: "s = p @ t" "reAlter t = Some r"
      by auto
    from reAlter_shape [OF t(2)] obtain m where m: "t = m @ r" "m \<noteq> []" "last m = SPC"
      by blast
    have "trimmedRight r"
    proof (cases "r = []")
      case True
      then show ?thesis by (simp add: trimmedRight_def)
    next
      case False
      with t m 1(2) show ?thesis by (simp add: trimmedRight_def)
    qed
    from 1(1) [OF Some pr [symmetric] this] have ih: "\<forall>q \<in> set (alterSplit r). trimmedRight q" .
    have "alterSplit s = p # alterSplit r"
      using Some pr by (simp add: alterSplit.simps [of s])
    with ih reFind_reAlter_before [of s p r] Some pr show ?thesis by simp
  qed
qed

lemma alter_prefix_mono:
  assumes "x \<le> y" "trimmedRight x" "trimmedRight y"
  shows "trimLine (''ALTER '' @ x) \<le> trimLine (''ALTER '' @ y)"
proof -
  have id: "trimLine (''ALTER '' @ z) = ''ALTER '' @ z" if "z \<noteq> []" "trimmedRight z" for z
    using that by (intro trimLine_id) (simp_all add: trimmedRight_def)
  have e: "trimLine ''ALTER '' = ''ALTER''"
    by (simp add: trimLine_def strTrimRight_def whitespace_def)
  show ?thesis
  proof (cases "x = []")
    case True
    show ?thesis
    proof (cases "y = []")
      case True
      with \<open>x = []\<close> show ?thesis by simp
    next
      case False
      from False assms(3) have "trimLine (''ALTER '' @ y) = ''ALTER '' @ y" by (rule id)
      moreover have "''ALTER'' \<le> ''ALTER '' @ y" by simp
      ultimately show ?thesis using \<open>x = []\<close> by (simp only: e append_Nil2)
    qed
  next
    case False
    with assms(1) have "y \<noteq> []" by auto
    note \<open>y \<noteq> []\<close>
    from \<open>y \<noteq> []\<close> assms(3) have "trimLine (''ALTER '' @ y) = ''ALTER '' @ y" by (rule id)
    moreover from False assms(2) have "trimLine (''ALTER '' @ x) = ''ALTER '' @ x" by (rule id)
    moreover from assms(1) have "''ALTER '' @ x \<le> ''ALTER '' @ y" by simp
    ultimately show ?thesis by (simp only:)
  qed
qed

lemma sorted_alterFragments: "trimmedRight ddl \<Longrightarrow> sorted (alterFragments ddl)"
proof -
  assume a: "trimmedRight ddl"
  let ?xs = "sort (tl (alterSplit ddl))"
  have good: "\<forall>p \<in> set ?xs. trimmedRight p"
    using trimmedRight_alterSplit [OF a] list.set_sel(2) [OF alterSplit_not_Nil [of ddl]]
    by auto
  have "sorted_wrt (\<lambda>x y. trimLine (''ALTER '' @ x) \<le> trimLine (''ALTER '' @ y)) ?xs"
  proof (rule sorted_wrt_mono_rel [of ?xs "(\<le>)"])
    show "sorted_wrt (\<le>) ?xs" by simp
  next
    fix x y assume "x \<in> set ?xs" "y \<in> set ?xs" "x \<le> y"
    with good show "trimLine (''ALTER '' @ x) \<le> trimLine (''ALTER '' @ y)"
      by (intro alter_prefix_mono) auto
  qed
  then show ?thesis
    by (simp add: alterFragments_def sorted_map)
qed


lemma alterFragments_reprefixed:
  assumes "trimmedRight ddl"
  shows "alterFragments ddl
           = map (\<lambda>c. if c = [] then ''ALTER'' else ''ALTER '' @ c) (sort (tl (alterSplit ddl)))"
proof -
  have good: "\<forall>p \<in> set (sort (tl (alterSplit ddl))). trimmedRight p"
    using trimmedRight_alterSplit [OF assms] list.set_sel(2) [OF alterSplit_not_Nil [of ddl]]
    by auto
  have e: "trimLine ''ALTER '' = ''ALTER''"
    by (simp add: trimLine_def strTrimRight_def whitespace_def)
  have "trimLine (''ALTER '' @ c) = (if c = [] then ''ALTER'' else ''ALTER '' @ c)"
    if "trimmedRight c" for c
  proof (cases "c = []")
    case True
    then show ?thesis using e by simp
  next
    case False
    with that have "trimLine (''ALTER '' @ c) = ''ALTER '' @ c"
      by (intro trimLine_id) (simp_all add: trimmedRight_def)
    with False show ?thesis by (simp only: if_False)
  qed
  with good show ?thesis
    unfolding alterFragments_def by (intro map_cong refl) blast
qed

text \<open>
  C2. When the object text was fetched and splits at the \<^verbatim>\<open>ALTER\<close> boundary into a
  \<^verbatim>\<open>CREATE\<close> piece and one or more further pieces, the document of
  \<^verbatim>\<open>exportTableView\<close> holds, between the index fragment and the comment, one fragment
  for every such piece: the pieces are taken in sorted order, whatever their order in the
  text (the sorted list has the same members), and each is emitted with \<^verbatim>\<open>ALTER\<close> and
  a space in front of it again (\<^verbatim>\<open>ALTER\<close> alone for an empty piece); the emitted
  fragments are themselves in lexicographic order.
\<close>

theorem exportTableView_alter_sorted:
  assumes "fst (ObjDDL os db schema name objType) = (ddl, None)"
    and "1 < length (alterSplit ddl)"
  shows "fst (fst (exportTableView os db schema name objType quiet))
           = joinStr
               (([trimLine (hd (alterSplit ddl))]
                 @ (if objType = typeTable \<or> objType = typeMaterializedView
                    then [trimLine (fst (fst (ObjIndices os db schema name objType)))] else []))
                @ alterFragments ddl
                @ [trimLine (fst (fst (ObjComments os db schema name objType))),
                   trimLine (fst (fst (ColComments os db schema name objType))),
                   trimLine (fst (fst (ObjTriggers os db schema name objType quiet)))])
               (dblSpace os) \<and>
         alterFragments ddl
           = map (\<lambda>c. if c = [] then ''ALTER'' else ''ALTER '' @ c) (sort (tl (alterSplit ddl))) \<and>
         mset (sort (tl (alterSplit ddl))) = mset (tl (alterSplit ddl)) \<and>
         sorted (sort (tl (alterSplit ddl))) \<and>
         sorted (alterFragments ddl) \<and>
         alterFragments ddl \<noteq> []"
proof -
  have tr: "trimmedRight ddl"
    using trimmedRight_ObjDDL [of os db schema name objType] assms(1) by simp
  have "0 < length (alterFragments ddl)"
    using assms(2) by (simp add: length_alterFragments)
  then have ne: "alterFragments ddl \<noteq> []"
    by simp
  have doc: "fst (fst (exportTableView os db schema name objType quiet))
           = joinStr
               (([trimLine (hd (alterSplit ddl))]
                 @ (if objType = typeTable \<or> objType = typeMaterializedView
                    then [trimLine (fst (fst (ObjIndices os db schema name objType)))] else []))
                @ alterFragments ddl
                @ [trimLine (fst (fst (ObjComments os db schema name objType))),
                   trimLine (fst (fst (ColComments os db schema name objType))),
                   trimLine (fst (fst (ObjTriggers os db schema name objType quiet)))])
               (dblSpace os)"
    using exportTableView_fragments [OF assms(1), of quiet] by (simp del: joinStr.simps)
  show ?thesis
    using doc alterFragments_reprefixed [OF tr] sorted_alterFragments [OF tr] ne
    by (simp del: joinStr.simps)
qed

theorem exportTableView_alter_sorted_witness:
  "fst (ObjDDL Other db_table ''HR'' ''T'' ''TABLE'') = (tbl_ddl, None) \<and>
   1 < length (alterSplit tbl_ddl) \<and>
   tl (alterSplit tbl_ddl) = [''TABLE T ADD Z;'', ''TABLE T ADD B;''] \<and>
   alterFragments tbl_ddl = [''ALTER TABLE T ADD B;'', ''ALTER TABLE T ADD Z;''] \<and>
   sorted (alterFragments tbl_ddl)"
proof -
  have h1: "fst (ObjDDL Other db_table ''HR'' ''T'' ''TABLE'') = (tbl_ddl, None)"
    by code_simp
  have h2: "1 < length (alterSplit tbl_ddl)"
    by code_simp
  have p: "tl (alterSplit tbl_ddl) = [''TABLE T ADD Z;'', ''TABLE T ADD B;'']"
    by code_simp
  have e: "map (\<lambda>c. if c = [] then ''ALTER'' else ''ALTER '' @ c) (sort (tl (alterSplit tbl_ddl)))
             = [''ALTER TABLE T ADD B;'', ''ALTER TABLE T ADD Z;'']"
    by code_simp
  note w = exportTableView_alter_sorted [where os = Other and db = db_table and schema = "''HR''"
      and name = "''T''" and objType = "''TABLE''" and ddl = tbl_ddl and quiet = False, OF h1 h2]
  from w have "alterFragments tbl_ddl
           = map (\<lambda>c. if c = [] then ''ALTER'' else ''ALTER '' @ c) (sort (tl (alterSplit tbl_ddl)))"
    by (rule conjunct1 [OF conjunct2])
  then have c1: "alterFragments tbl_ddl = [''ALTER TABLE T ADD B;'', ''ALTER TABLE T ADD Z;'']"
    unfolding e .
  from w have c2: "sorted (alterFragments tbl_ddl)"
    by blast
  show ?thesis
    by (intro conjI; fact)
qed

end
